theory Spec2Isabelle
  imports Complex_Main "HOL-Library.Log_Nat"
begin

section \<open>Python numbers\<close>

text \<open>
  A Python \<open>float\<close> is an IEEE 754 double. Every double is a rational, so the model keeps
  a float as the rational it denotes, and every float operation as the exact operation
  followed by \<open>float_round\<close>: rounding to the nearest number with a 53-bit significand,
  ties to the even significand. The exponent is unbounded in the model: overflow and
  subnormal numbers do not occur for quotients and products of the integers below \<open>2^53\<close>
  that the image code computes with, and an integer below \<open>2^53\<close> converts to a float
  unchanged.
\<close>

definition round_half_even :: "rat \<Rightarrow> int" where
  "round_half_even x = (let f = \<lfloor>x\<rfloor>; d = x - of_int f in
     if d < 1/2 then f else if 1/2 < d then f + 1 else if even f then f else f + 1)"

text \<open>\<open>ilog2 x\<close> is the binary exponent of a positive \<open>x\<close>: \<open>2^e \<le> x < 2^(e+1)\<close>.\<close>

definition ilog2 :: "rat \<Rightarrow> int" where
  "ilog2 x = (let (p, q) = quotient_of x;
                  d = bitlen p - bitlen q
              in if 2 powi d \<le> x then d else d - 1)"

definition float_round :: "rat \<Rightarrow> rat" where
  "float_round x = (if x = 0 then 0 else
     let e = ilog2 \<bar>x\<bar> - 52; m = round_half_even (\<bar>x\<bar> / 2 powi e)
     in sgn x * of_int m * 2 powi e)"

text \<open>The float operations \<open>a / b\<close> (for \<open>b \<noteq> 0\<close>), \<open>a * b\<close>, \<open>a - b\<close> and \<open>a + b\<close>.\<close>

definition float_div :: "rat \<Rightarrow> rat \<Rightarrow> rat" where
  "float_div a b = float_round (a / b)"

definition float_mul :: "rat \<Rightarrow> rat \<Rightarrow> rat" where
  "float_mul a b = float_round (a * b)"

definition float_sub :: "rat \<Rightarrow> rat \<Rightarrow> rat" where
  "float_sub a b = float_round (a - b)"

definition float_add :: "rat \<Rightarrow> rat \<Rightarrow> rat" where
  "float_add a b = float_round (a + b)"

text \<open>A decimal literal such as \<open>0.15\<close> denotes the double nearest to it.\<close>

definition float_literal :: "rat \<Rightarrow> rat" where
  "float_literal q = float_round q"

text \<open>\<open>int(x)\<close> on a float truncates toward zero.\<close>

definition py_int :: "rat \<Rightarrow> int" where
  "py_int x = (if 0 \<le> x then \<lfloor>x\<rfloor> else \<lceil>x\<rceil>)"

text \<open>
  A value that is an \<open>int\<close> on one path and a \<open>float\<close> on another (\<open>y_start\<close> in
  \<open>add_text_overlay\<close>), with the operations the source applies to it: adding and
  subtracting an \<open>int\<close>, and \<open>int(...)\<close>.
\<close>

datatype pynum = PyInt int | PyFloat rat

fun num_val :: "pynum \<Rightarrow> rat" where
  "num_val (PyInt i) = of_int i"
| "num_val (PyFloat x) = x"

fun num_add :: "pynum \<Rightarrow> int \<Rightarrow> pynum" where
  "num_add (PyInt i) k = PyInt (i + k)"
| "num_add (PyFloat x) k = PyFloat (float_add x (of_int k))"

fun num_sub :: "pynum \<Rightarrow> int \<Rightarrow> pynum" where
  "num_sub (PyInt i) k = PyInt (i - k)"
| "num_sub (PyFloat x) k = PyFloat (float_sub x (of_int k))"

fun num_int :: "pynum \<Rightarrow> int" where
  "num_int (PyInt i) = i"
| "num_int (PyFloat x) = py_int x"

section \<open>Exceptions and dictionaries\<close>

datatype exn =
  ZeroDivisionError | ValueError | FileNotFoundError | UnidentifiedImageError | OSError
  | OverflowError | MemoryError | DecompressionBombError

text \<open>Sequencing of calls that may raise: the first exception ends the computation.\<close>

definition and_then :: "exn + 'a \<Rightarrow> ('a \<Rightarrow> exn + 'b) \<Rightarrow> exn + 'b" where
  "and_then r f = (case r of Inl e \<Rightarrow> Inl e | Inr v \<Rightarrow> f v)"

text \<open>
  \<open>d.get(k, default)\<close> on a dictionary literal. The literal is kept as the list of its
  items, in the order of the source.
\<close>

definition dict_get :: "('k \<times> 'v) list \<Rightarrow> 'k \<Rightarrow> 'v \<Rightarrow> 'v" where
  "dict_get d k dflt = (case map_of d k of Some v \<Rightarrow> v | None \<Rightarrow> dflt)"

section \<open>Images and the imaging library\<close>

text \<open>
  A PIL image: its mode, its size and its pixels, read by coordinates \<open>(x, y)\<close> with
  \<open>0 \<le> x < width\<close> and \<open>0 \<le> y < height\<close>. A pixel is \<open>(r, g, b, a)\<close>; the alpha
  sample of an image without alpha channel is not looked at.
\<close>

datatype mode = RGB | RGBA | L

type_synonym pixel = "int \<times> int \<times> int \<times> int"

record image =
  mode :: mode
  width :: int
  height :: int
  px :: "int \<Rightarrow> int \<Rightarrow> pixel"

type_synonym box = "int \<times> int \<times> int \<times> int"

text \<open>A loaded font: the face it was loaded from and its size.\<close>

type_synonym font = "string \<times> int"

text \<open>
  What the source takes from Pillow and the standard library without defining it: the
  resampling filter, the Gaussian filter, the per-pixel blending rules, font loading
  and text measurement, the drawing primitives, the image codecs and Base64. They are
  parameters of the model. A drawing primitive and a filter give the new pixels of an
  image whose size and mode they leave as they are. \<open>out_of_memory\<close> says whether the
  library, on its host, fails to get the memory (the new image and the filter tables)
  for resampling an image of the first size to the second.
\<close>

record pil =
  convert_px :: "mode \<Rightarrow> mode \<Rightarrow> pixel \<Rightarrow> pixel"
  resample :: "image \<Rightarrow> int \<times> int \<Rightarrow> int \<Rightarrow> int \<Rightarrow> pixel"
  gaussian_blur :: "int \<Rightarrow> int \<times> int \<Rightarrow> (int \<Rightarrow> int \<Rightarrow> int) \<Rightarrow> int \<Rightarrow> int \<Rightarrow> int"
  blend :: "pixel \<Rightarrow> pixel \<Rightarrow> pixel"
  composite_px :: "pixel \<Rightarrow> pixel \<Rightarrow> pixel"
  truetype :: "string \<Rightarrow> int \<Rightarrow> exn + font"
  load_default :: font
  textbbox :: "font \<Rightarrow> string \<Rightarrow> box"
  text_px :: "int \<times> pynum \<Rightarrow> string \<Rightarrow> font \<Rightarrow> pixel \<Rightarrow> image \<Rightarrow> int \<Rightarrow> int \<Rightarrow> pixel"
  rectangle_px :: "(int \<times> int) \<times> (int \<times> int) \<Rightarrow> pixel \<Rightarrow> image \<Rightarrow> int \<Rightarrow> int \<Rightarrow> pixel"
  rounded_rectangle_px ::
    "(int \<times> pynum) \<times> (int \<times> pynum) \<Rightarrow> int \<Rightarrow> pixel \<Rightarrow> image \<Rightarrow> int \<Rightarrow> int \<Rightarrow> pixel"
  decode :: "string \<Rightarrow> exn + image"
  encode :: "string \<Rightarrow> image \<Rightarrow> exn + string"
  b64encode :: "string \<Rightarrow> string"
  out_of_memory :: "int \<times> int \<Rightarrow> int \<times> int \<Rightarrow> bool"

text \<open>The file system: the bytes stored under each path.\<close>

type_synonym fs = "string \<rightharpoonup> string"

definition img_size :: "image \<Rightarrow> int \<times> int" where
  "img_size img = (width img, height img)"

definition alpha :: "pixel \<Rightarrow> int" where
  "alpha p = (case p of (r, g, b, a) \<Rightarrow> a)"

definition rgb :: "pixel \<Rightarrow> int \<times> int \<times> int" where
  "rgb p = (case p of (r, g, b, a) \<Rightarrow> (r, g, b))"

text \<open>\<open>Image.new(mode, size, color)\<close>.\<close>

definition new_image :: "mode \<Rightarrow> int \<times> int \<Rightarrow> pixel \<Rightarrow> image" where
  "new_image m sz color = \<lparr>mode = m, width = fst sz, height = snd sz, px = (\<lambda>x y. color)\<rparr>"

text \<open>\<open>img.convert(m)\<close>: a new image; a copy when the mode is already \<open>m\<close>.\<close>

definition convert :: "pil \<Rightarrow> mode \<Rightarrow> image \<Rightarrow> image" where
  "convert lib m img =
     (if mode img = m then img
      else img\<lparr>mode := m, px := (\<lambda>x y. convert_px lib (mode img) m (px img x y))\<rparr>)"

text \<open>
  Pillow's limit on the number of pixels of an image that is opened or cropped:
  \<open>MAX_IMAGE_PIXELS = int(1024 * 1024 * 1024 // 4 // 3)\<close>; twice that many pixels is
  an error, \<open>DecompressionBombError\<close>.
\<close>

definition MAX_IMAGE_PIXELS :: int where
  "MAX_IMAGE_PIXELS = 1024 * 1024 * 1024 div 4 div 3"

text \<open>
  \<open>img.crop(box)\<close> for \<open>box = (left, upper, right, lower)\<close>: the region of that size;
  Pillow raises \<open>ValueError\<close> when \<open>right < left\<close> or \<open>lower < upper\<close>,
  \<open>DecompressionBombError\<close> when the region has more than \<open>2 * MAX_IMAGE_PIXELS\<close>
  pixels, and fills what lies outside the source with zeros.
\<close>

definition crop :: "image \<Rightarrow> box \<Rightarrow> exn + image" where
  "crop img b = (case b of (left, upper, right, lower) \<Rightarrow>
     if right < left \<or> lower < upper then Inl ValueError
     else if 2 * MAX_IMAGE_PIXELS < max 1 (right - left) * max 1 (lower - upper)
       then Inl DecompressionBombError
     else Inr \<lparr>mode = mode img, width = right - left, height = lower - upper,
               px = (\<lambda>x y. if 0 \<le> x + left \<and> x + left < width img
                                \<and> 0 \<le> y + upper \<and> y + upper < height img
                             then px img (x + left) (y + upper) else (0, 0, 0, 0))\<rparr>)"

text \<open>
  The sizes that Pillow's C core takes: a dimension is a C \<open>int\<close>, and a line of a new
  image has at most \<open>INT_MAX / 4 - 1\<close> pixels.
\<close>

definition INT_MAX :: int where
  "INT_MAX = 2147483647"

definition c_int :: "int \<Rightarrow> bool" where
  "c_int v \<longleftrightarrow> - INT_MAX - 1 \<le> v \<and> v \<le> INT_MAX"

definition max_line :: int where
  "max_line = INT_MAX div 4 - 1"

text \<open>
  \<open>img.resize(size, Image.Resampling.LANCZOS)\<close>: a copy when the size is already
  \<open>size\<close>; \<open>OverflowError\<close> when a requested dimension is no C \<open>int\<close>, \<open>ValueError\<close>
  when it is below 1, \<open>MemoryError\<close> when the requested width exceeds the longest line
  or the library cannot get the memory; and otherwise an image of exactly the
  requested size whose pixels the resampling filter computes.
\<close>

definition resize :: "pil \<Rightarrow> image \<Rightarrow> int \<times> int \<Rightarrow> exn + image" where
  "resize lib img sz =
     (if img_size img = sz then Inr img
      else if \<not> c_int (fst sz) \<or> \<not> c_int (snd sz) then Inl OverflowError
      else if fst sz < 1 \<or> snd sz < 1 then Inl ValueError
      else if max_line < fst sz \<or> out_of_memory lib (img_size img) sz then Inl MemoryError
      else Inr \<lparr>mode = mode img, width = fst sz, height = snd sz, px = resample lib img sz\<rparr>)"

text \<open>
  \<open>base.paste(im, pos, im)\<close>: the image \<open>im\<close> pasted at the offset \<open>pos\<close> with its own
  alpha channel as the mask. Pixels outside the box of \<open>im\<close> stay as they are; Pillow
  raises \<open>ValueError\<close> for a mask without alpha channel.
\<close>

definition paste :: "pil \<Rightarrow> image \<Rightarrow> image \<Rightarrow> int \<times> int \<Rightarrow> exn + image" where
  "paste lib base im pos =
     (if mode im = RGB then Inl ValueError
      else Inr (base\<lparr>px := (\<lambda>x y.
             if fst pos \<le> x \<and> x < fst pos + width im \<and> snd pos \<le> y \<and> y < snd pos + height im
             then blend lib (px base x y) (px im (x - fst pos) (y - snd pos))
             else px base x y)\<rparr>))"

text \<open>
  \<open>Image.alpha_composite(im1, im2)\<close>: both images must be RGBA and of one size
  (\<open>ValueError\<close> otherwise); the result is a new image.
\<close>

definition alpha_composite :: "pil \<Rightarrow> image \<Rightarrow> image \<Rightarrow> exn + image" where
  "alpha_composite lib im1 im2 =
     (if mode im1 \<noteq> RGBA \<or> mode im2 \<noteq> RGBA \<or> img_size im1 \<noteq> img_size im2 then Inl ValueError
      else Inr (im1\<lparr>px := (\<lambda>x y. composite_px lib (px im1 x y) (px im2 x y))\<rparr>))"

text \<open>The drawing calls on \<open>ImageDraw.Draw(overlay)\<close>; each changes \<open>overlay\<close> in place.\<close>

definition draw_rectangle :: "pil \<Rightarrow> (int \<times> int) \<times> (int \<times> int) \<Rightarrow> pixel \<Rightarrow> image \<Rightarrow> image" where
  "draw_rectangle lib xy fill overlay = overlay\<lparr>px := rectangle_px lib xy fill overlay\<rparr>"

definition draw_text :: "pil \<Rightarrow> int \<times> pynum \<Rightarrow> string \<Rightarrow> font \<Rightarrow> pixel \<Rightarrow> image \<Rightarrow> image" where
  "draw_text lib xy text font fill overlay = overlay\<lparr>px := text_px lib xy text font fill overlay\<rparr>"

definition draw_rounded_rectangle ::
  "pil \<Rightarrow> (int \<times> pynum) \<times> (int \<times> pynum) \<Rightarrow> int \<Rightarrow> pixel \<Rightarrow> image \<Rightarrow> image" where
  "draw_rounded_rectangle lib xy radius fill overlay =
     overlay\<lparr>px := rounded_rectangle_px lib xy radius fill overlay\<rparr>"

text \<open>
  \<open>Image.open\<close> on a path: the file must exist and decode. \<open>img.save(path, ...)\<close>
  encodes and writes the file.
\<close>

definition open_path :: "pil \<Rightarrow> fs \<Rightarrow> string \<Rightarrow> exn + image" where
  "open_path lib files path =
     (case files path of None \<Rightarrow> Inl FileNotFoundError | Some bytes \<Rightarrow> decode lib bytes)"

definition save :: "pil \<Rightarrow> fs \<Rightarrow> image \<Rightarrow> string \<Rightarrow> string \<Rightarrow> exn + fs" where
  "save lib files img path fmt =
     and_then (encode lib fmt img) (\<lambda>bytes. Inr (files(path \<mapsto> bytes)))"

section \<open>image_processor.py\<close>

subsection \<open>\<open>smart_crop\<close>\<close>

text \<open>
  The crop box of \<open>smart_crop\<close> for a \<open>w \<times> h\<close> image and the target size. The two
  ratios are float quotients of the integer sizes (\<open>ZeroDivisionError\<close> for a zero
  divisor); \<open>//\<close> is floor division.
\<close>

definition smart_crop_box :: "int \<Rightarrow> int \<Rightarrow> int \<Rightarrow> int \<Rightarrow> exn + box" where
  "smart_crop_box w h target_width target_height =
     (if h = 0 then Inl ZeroDivisionError
      else let img_ratio = float_div (of_int w) (of_int h) in
        if target_height = 0 then Inl ZeroDivisionError
        else let target_ratio = float_div (of_int target_width) (of_int target_height) in
          if target_ratio > img_ratio then
            (if target_ratio = 0 then Inl ZeroDivisionError
             else let new_height = py_int (float_div (of_int w) target_ratio);
                      offset = (h - new_height) div 2
                  in Inr (0, offset, w, offset + new_height))
          else
            (let new_width = py_int (float_mul (of_int h) target_ratio);
                 offset = (w - new_width) div 2
             in Inr (offset, 0, offset + new_width, h)))"

definition smart_crop :: "pil \<Rightarrow> image \<Rightarrow> int \<Rightarrow> int \<Rightarrow> exn + image" where
  "smart_crop lib img0 target_width target_height =
     (let img = (if mode img0 \<noteq> RGB then convert lib RGB img0 else img0) in
      and_then (smart_crop_box (width img) (height img) target_width target_height) (\<lambda>b.
      and_then (crop img b) (\<lambda>img.
      resize lib img (target_width, target_height))))"

subsection \<open>\<open>ImageProcessor.resize_logo\<close> and \<open>ImageProcessor.add_logo\<close>\<close>

definition resize_logo :: "pil \<Rightarrow> image \<Rightarrow> int \<Rightarrow> exn + image" where
  "resize_logo lib logo sz =
     (if height logo = 0 then Inl ZeroDivisionError
      else let aspect_ratio = float_div (of_int (width logo)) (of_int (height logo)) in
        if aspect_ratio = 0 then Inl ZeroDivisionError
        else let new_height = py_int (float_div (of_int sz) aspect_ratio)
             in resize lib logo (sz, new_height))"

text \<open>
  The dictionary \<open>positions\<close> that \<open>ImageProcessor.add_logo\<close>, \<open>add_image_logo\<close> and
  \<open>add_transparent_logo\<close> each build from the canvas size \<open>(w, h)\<close>, the size
  \<open>(lw, lh)\<close> of what is placed and \<open>padding\<close>.
\<close>

definition positions :: "int \<Rightarrow> int \<Rightarrow> int \<Rightarrow> int \<Rightarrow> int \<Rightarrow> (string \<times> int \<times> int) list" where
  "positions w h lw lh padding =
     [(''top-right'', (w - lw - padding, padding)),
      (''top-left'', (padding, padding)),
      (''bottom-right'', (w - lw - padding, h - lh - padding)),
      (''bottom-left'', (padding, h - lh - padding))]"

text \<open>
  \<open>pos = positions.get(position, positions["top-right"])\<close> with \<open>padding = 40\<close> in
  \<open>ImageProcessor.add_logo\<close>; the subscript \<open>positions["top-right"]\<close> is the first
  item of the literal.
\<close>

definition ImageProcessor_add_logo_pos :: "int \<Rightarrow> int \<Rightarrow> int \<Rightarrow> int \<Rightarrow> string \<Rightarrow> int \<times> int" where
  "ImageProcessor_add_logo_pos w h lw lh position =
     (let padding = 40;
          ps = positions w h lw lh padding
      in dict_get ps position (w - lw - padding, padding))"

definition ImageProcessor_add_logo :: "pil \<Rightarrow> image \<Rightarrow> image \<Rightarrow> string \<Rightarrow> exn + image" where
  "ImageProcessor_add_logo lib img logo_image position =
     (let base = convert lib RGBA img;
          pos = ImageProcessor_add_logo_pos (width base) (height base)
                  (width logo_image) (height logo_image) position
      in and_then (paste lib base logo_image pos) (\<lambda>base.
         Inr (convert lib RGB base)))"

subsection \<open>\<open>ImageProcessor.add_text_overlay\<close>\<close>

text \<open>
  Font loading: the bold DejaVu face when its file exists, else the Windows Arial bold
  face; the CTA face is the same path with \<open>"bd.ttf"\<close> replaced by \<open>".ttf"\<close> (which
  leaves the DejaVu path as it is) at half the size. The bare \<open>except\<close> turns any failure into the
  built-in default font for both.
\<close>

definition dejavu_bold :: string where
  "dejavu_bold = ''/usr/share/fonts/truetype/dejavu/DejaVuSans-Bold.ttf''"

definition load_fonts :: "pil \<Rightarrow> fs \<Rightarrow> int \<Rightarrow> font \<times> font" where
  "load_fonts lib files font_size =
     (let font_path = (if files dejavu_bold \<noteq> None then dejavu_bold
                       else ''C:/Windows/Fonts/arialbd.ttf'');
          cta_path = (if font_path = dejavu_bold then dejavu_bold
                      else ''C:/Windows/Fonts/arial.ttf'')
      in case truetype lib font_path font_size of
           Inl e \<Rightarrow> (load_default lib, load_default lib)
         | Inr font_title \<Rightarrow>
            (case truetype lib cta_path (font_size div 2) of
               Inl e \<Rightarrow> (load_default lib, load_default lib)
             | Inr font_cta \<Rightarrow> (font_title, font_cta)))"

text \<open>
  The measurements and the vertical placement that \<open>add_text_overlay\<close> computes before
  it draws: \<open>(title_width, title_height, total_text_height, y_start)\<close> for a canvas of
  height \<open>h\<close>. \<open>y_start\<close> is a float for \<open>"top"\<close> and \<open>"bottom"\<close> and an \<open>int\<close> on the
  last branch, which is taken for \<open>"center"\<close> and for every other string.
\<close>

record layout =
  title_width :: int
  title_height :: int
  total_text_height :: int
  y_start :: pynum

definition text_layout :: "pil \<Rightarrow> font \<Rightarrow> font \<Rightarrow> int \<Rightarrow> string \<Rightarrow> string \<Rightarrow> string \<Rightarrow> layout" where
  "text_layout lib font_title font_cta h title cta position =
     (case textbbox lib font_title title of (t0, t1, t2, t3) \<Rightarrow>
      let title_width = t2 - t0;
          title_height = t3 - t1;
          cta_height = (if cta \<noteq> [] then
                          (case textbbox lib font_cta cta of (c0, c1, c2, c3) \<Rightarrow> (c3 - c1) + 30)
                        else 0);
          total_text_height = title_height + cta_height + 40;
          y_start = (if position = ''top'' then
                       PyFloat (float_mul (of_int h) (float_literal (15/100)))
                     else if position = ''bottom'' then
                       PyFloat (float_sub (float_mul (of_int h) (float_literal (85/100)))
                                          (of_int total_text_height))
                     else PyInt ((h - total_text_height) div 2))
      in \<lparr>title_width = title_width, title_height = title_height,
          total_text_height = total_text_height, y_start = y_start\<rparr>)"

definition add_text_overlay ::
  "pil \<Rightarrow> fs \<Rightarrow> image \<Rightarrow> string \<Rightarrow> string \<Rightarrow> int \<Rightarrow> string \<Rightarrow> exn + image" where
  "add_text_overlay lib files image0 title cta font_size position =
     (let img = image0;
          w = width img; h = height img;
          overlay = new_image RGBA (img_size img) (0, 0, 0, 0);
          (font_title, font_cta) = load_fonts lib files font_size;
          lay = text_layout lib font_title font_cta h title cta position;
          padding = 40;
          bg_y1 = num_int (num_sub (y_start lay) padding);
          bg_y2 = num_int (num_add (num_add (y_start lay) (total_text_height lay)) padding);
          overlay = draw_rectangle lib ((0, bg_y1), (w, bg_y2)) (0, 0, 0, 153) overlay;
          title_x = (w - title_width lay) div 2;
          overlay = draw_text lib (title_x, y_start lay) title font_title (255, 255, 255, 255) overlay;
          overlay =
            (if cta \<noteq> [] then
               (let cta_y = num_add (num_add (y_start lay) (title_height lay)) 30 in
                case textbbox lib font_cta cta of (c0, c1, c2, c3) \<Rightarrow>
                let cta_w = c2 - c0;
                    cta_h = c3 - c1;
                    cta_x = (w - cta_w) div 2;
                    button_padding = 15;
                    button_rect = ((cta_x - button_padding, num_sub cta_y 5),
                                   (cta_x + cta_w + button_padding, num_add (num_add cta_y cta_h) 10));
                    overlay = draw_rounded_rectangle lib button_rect 8 (255, 215, 0, 255) overlay
                in draw_text lib (cta_x, cta_y) cta font_cta (0, 0, 0, 255) overlay)
             else overlay)
      in and_then (alpha_composite lib (convert lib RGBA img) overlay) (\<lambda>img.
         Inr (convert lib RGB img)))"

subsection \<open>\<open>ImageProcessor.generate_asset\<close>\<close>

text \<open>
  The canvas that \<open>generate_asset\<close> builds before it saves it: the source image opened
  and cropped, the logo pasted when a logo path is given, the text overlay added when
  the title or the CTA is not empty.
\<close>

definition asset_canvas ::
  "pil \<Rightarrow> fs \<Rightarrow> string \<Rightarrow> int \<Rightarrow> int \<Rightarrow> string \<Rightarrow> string \<Rightarrow> int \<Rightarrow> string
     \<Rightarrow> string option \<Rightarrow> string \<Rightarrow> int \<Rightarrow> exn + image" where
  "asset_canvas lib files input_image_path w h title cta font_size text_position
       logo_path logo_position logo_size =
     and_then (open_path lib files input_image_path) (\<lambda>img.
     and_then (smart_crop lib (convert lib RGB img) w h) (\<lambda>img.
     and_then (case logo_path of
                 None \<Rightarrow> Inr img
               | Some p \<Rightarrow> if p = [] then Inr img else
                   and_then (open_path lib files p) (\<lambda>logo.
                   and_then (resize_logo lib (convert lib RGBA logo) logo_size) (\<lambda>logo.
                   ImageProcessor_add_logo lib img logo logo_position))) (\<lambda>img.
     if title \<noteq> [] \<or> cta \<noteq> [] then
       add_text_overlay lib files img title cta font_size text_position
     else Inr img)))"

definition generate_asset ::
  "pil \<Rightarrow> fs \<Rightarrow> string \<Rightarrow> string \<Rightarrow> int \<Rightarrow> int \<Rightarrow> string \<Rightarrow> string \<Rightarrow> int \<Rightarrow> string
     \<Rightarrow> string option \<Rightarrow> string \<Rightarrow> int \<Rightarrow> exn + fs" where
  "generate_asset lib files input_image_path output_path w h title cta font_size text_position
       logo_path logo_position logo_size =
     and_then (asset_canvas lib files input_image_path w h title cta font_size text_position
                 logo_path logo_position logo_size) (\<lambda>img.
     save lib files img output_path ''JPEG'')"

section \<open>logo_handler.py\<close>

subsection \<open>\<open>remove_white_background\<close> and \<open>prepare_logo\<close>\<close>

text \<open>\<open>white_mask\<close>: red, green and blue all above the threshold.\<close>

definition white_mask :: "int \<Rightarrow> pixel \<Rightarrow> bool" where
  "white_mask threshold p = (case p of (r, g, b, a) \<Rightarrow> r > threshold \<and> g > threshold \<and> b > threshold)"

text \<open>\<open>data[:, :, 3] = np.where(white_mask, 0, a)\<close> on one pixel.\<close>

definition mask_pixel :: "int \<Rightarrow> pixel \<Rightarrow> pixel" where
  "mask_pixel threshold p =
     (case p of (r, g, b, a) \<Rightarrow> (r, g, b, if white_mask threshold p then 0 else a))"

text \<open>\<open>result.putalpha(band)\<close>: the alpha channel replaced, the colours kept.\<close>

definition putalpha :: "image \<Rightarrow> (int \<Rightarrow> int \<Rightarrow> int) \<Rightarrow> image" where
  "putalpha img band =
     img\<lparr>px := (\<lambda>x y. case px img x y of (r, g, b, a) \<Rightarrow> (r, g, b, band x y))\<rparr>"

definition remove_white_background :: "pil \<Rightarrow> image \<Rightarrow> int \<Rightarrow> int \<Rightarrow> image" where
  "remove_white_background lib image0 threshold feather =
     (let image1 = (if mode image0 \<noteq> RGBA then convert lib RGBA image0 else image0);
          data = (\<lambda>x y. mask_pixel threshold (px image1 x y));
          result = image1\<lparr>px := data\<rparr>
      in if feather > 0 then
           (let alpha_band = (\<lambda>x y. alpha (px result x y));
                alpha_band = gaussian_blur lib feather (img_size result) alpha_band
            in putalpha result alpha_band)
         else result)"

text \<open>
  What \<open>Image.open\<close> is given: a path, or a file-like object holding the bytes.
\<close>

datatype source = Path string | FileObj string

definition open_image :: "pil \<Rightarrow> fs \<Rightarrow> source \<Rightarrow> exn + image" where
  "open_image lib files src =
     (case src of Path p \<Rightarrow> open_path lib files p | FileObj bytes \<Rightarrow> decode lib bytes)"

text \<open>\<open>prepare_logo\<close> calls \<open>remove_white_background(logo, threshold)\<close>: the feather is its default, 2.\<close>

definition prepare_logo :: "pil \<Rightarrow> fs \<Rightarrow> source \<Rightarrow> bool \<Rightarrow> int \<Rightarrow> exn + image" where
  "prepare_logo lib files logo_path remove_background threshold =
     and_then (open_image lib files logo_path) (\<lambda>logo.
     let logo = (if mode logo \<noteq> RGBA then convert lib RGBA logo else logo);
         logo = (if remove_background then remove_white_background lib logo threshold 2 else logo)
     in Inr logo)"

subsection \<open>\<open>add_transparent_logo\<close>\<close>

text \<open>
  \<open>except IOError\<close> catches \<open>OSError\<close> and its subclasses; any other exception of
  \<open>ImageFont.truetype\<close> leaves the function.
\<close>

definition is_IOError :: "exn \<Rightarrow> bool" where
  "is_IOError e \<longleftrightarrow> e = OSError \<or> e = FileNotFoundError \<or> e = UnidentifiedImageError"

definition watermark_font :: "pil \<Rightarrow> int \<Rightarrow> exn + font" where
  "watermark_font lib font_size =
     (case truetype lib ''arial.ttf'' font_size of
        Inr f \<Rightarrow> Inr f
      | Inl e1 \<Rightarrow> if \<not> is_IOError e1 then Inl e1 else
         (case truetype lib dejavu_bold font_size of
            Inr f \<Rightarrow> Inr f
          | Inl e2 \<Rightarrow> if \<not> is_IOError e2 then Inl e2 else
             (case truetype lib ''C:/Windows/Fonts/arial.ttf'' font_size of
                Inr f \<Rightarrow> Inr f
              | Inl e3 \<Rightarrow> if \<not> is_IOError e3 then Inl e3 else Inr (load_default lib))))"

text \<open>\<open>alpha_value = int(255 * opacity)\<close>.\<close>

definition alpha_value :: "rat \<Rightarrow> int" where
  "alpha_value opacity = py_int (float_mul 255 opacity)"

definition add_transparent_logo ::
  "pil \<Rightarrow> image \<Rightarrow> string \<Rightarrow> string \<Rightarrow> rat \<Rightarrow> int \<Rightarrow> int \<times> int \<times> int \<Rightarrow> exn + image" where
  "add_transparent_logo lib image0 text position opacity font_size color =
     (let overlay = new_image RGBA (img_size image0) (255, 255, 255, 0) in
      and_then (watermark_font lib font_size) (\<lambda>font.
      case textbbox lib font text of (b0, b1, b2, b3) \<Rightarrow>
      let text_width = b2 - b0;
          text_height = b3 - b1;
          padding = 40;
          ps = positions (width image0) (height image0) text_width text_height padding;
          pos = dict_get ps position (width image0 - text_width - padding, padding);
          text_color_with_alpha = (case color of (r, g, b) \<Rightarrow> (r, g, b, alpha_value opacity));
          overlay = draw_text lib (fst pos, PyInt (snd pos)) text font text_color_with_alpha overlay;
          image1 = (if mode image0 \<noteq> RGBA then convert lib RGBA image0 else image0)
      in and_then (alpha_composite lib image1 overlay) (\<lambda>result.
         Inr (convert lib RGB result))))"

subsection \<open>\<open>add_image_logo\<close>\<close>

text \<open>
  \<open>a.point(lambda x: int(x * opacity))\<close>: Pillow tabulates the function on
  \<open>0, ..., 255\<close>, clips each entry to that range and maps every sample through the table.
\<close>

definition clip8 :: "int \<Rightarrow> int" where
  "clip8 v = (if v < 0 then 0 else if 255 < v then 255 else v)"

definition opacity_point :: "rat \<Rightarrow> int \<Rightarrow> int" where
  "opacity_point opacity x = clip8 (py_int (float_mul (of_int x) opacity))"

definition apply_opacity :: "rat \<Rightarrow> image \<Rightarrow> image" where
  "apply_opacity opacity logo =
     logo\<lparr>px := (\<lambda>x y. case px logo x y of (r, g, b, a) \<Rightarrow> (r, g, b, opacity_point opacity a))\<rparr>"

text \<open>Steps 1 to 3 of \<open>add_image_logo\<close>: the logo prepared, resized and made translucent.\<close>

definition logo_layer :: "pil \<Rightarrow> fs \<Rightarrow> source \<Rightarrow> int \<Rightarrow> rat \<Rightarrow> bool \<Rightarrow> exn + image" where
  "logo_layer lib files logo_path logo_width opacity remove_background =
     and_then (prepare_logo lib files logo_path remove_background 240) (\<lambda>logo.
     if width logo = 0 then Inl ZeroDivisionError
     else let aspect_ratio = float_div (of_int (height logo)) (of_int (width logo));
              new_height = py_int (float_mul (of_int logo_width) aspect_ratio)
          in and_then (resize lib logo (logo_width, new_height)) (\<lambda>logo.
             Inr (apply_opacity opacity logo)))"

definition add_image_logo_pos :: "int \<Rightarrow> int \<Rightarrow> int \<Rightarrow> int \<Rightarrow> string \<Rightarrow> int \<times> int" where
  "add_image_logo_pos image_width image_height logo_w logo_h position =
     (let padding = 40;
          ps = positions image_width image_height logo_w logo_h padding
      in dict_get ps position (image_width - logo_w - padding, padding))"

definition add_image_logo ::
  "pil \<Rightarrow> fs \<Rightarrow> image \<Rightarrow> source \<Rightarrow> string \<Rightarrow> int \<Rightarrow> rat \<Rightarrow> bool \<Rightarrow> exn + image" where
  "add_image_logo lib files image0 logo_path position logo_width opacity remove_background =
     and_then (logo_layer lib files logo_path logo_width opacity remove_background) (\<lambda>logo.
     let pos = add_image_logo_pos (width image0) (height image0) (width logo) (height logo) position;
         image1 = (if mode image0 \<noteq> RGBA then convert lib RGBA image0 else image0);
         result = image1
     in and_then (paste lib result logo pos) (\<lambda>result.
        Inr (convert lib RGB result)))"

subsection \<open>\<open>add_logo\<close>\<close>

text \<open>
  The default logo path, \<open>static/logo/mako_logo.png\<close> beside the backend directory.
  A path that does not exist gives the text watermark \<open>KESHET\<close> with
  \<open>opacity=0.35\<close> (and the defaults \<open>font_size=70\<close>, white).
\<close>

definition default_logo_path :: string where
  "default_logo_path = ''static/logo/mako_logo.png''"

definition add_logo ::
  "pil \<Rightarrow> fs \<Rightarrow> image \<Rightarrow> string \<Rightarrow> source option \<Rightarrow> int \<Rightarrow> rat \<Rightarrow> exn + image" where
  "add_logo lib files image0 position logo_path0 logo_width opacity =
     (let logo_path = (case logo_path0 of None \<Rightarrow> Path default_logo_path | Some p \<Rightarrow> p) in
      case logo_path of
        FileObj bytes \<Rightarrow>
          add_image_logo lib files image0 (FileObj bytes) position logo_width opacity True
      | Path p \<Rightarrow>
          if files p \<noteq> None then
            add_image_logo lib files image0 (Path p) position logo_width opacity True
          else
            add_transparent_logo lib image0 ''KESHET'' position (float_literal (35/100)) 70
              (255, 255, 255))"

text \<open>
  The bounding box \<open>(left, upper, right, lower)\<close> that \<open>paste(logo, pos, logo)\<close> covers:
  the logo's size at the offset \<open>pos\<close> (right and lower edge exclusive).
\<close>

definition paste_box :: "int \<times> int \<Rightarrow> int \<Rightarrow> int \<Rightarrow> box" where
  "paste_box pos lw lh = (fst pos, snd pos, fst pos + lw, snd pos + lh)"

definition recognized_corner :: "string \<Rightarrow> bool" where
  "recognized_corner c \<longleftrightarrow>
     c = ''top-right'' \<or> c = ''top-left'' \<or> c = ''bottom-right'' \<or> c = ''bottom-left''"

section \<open>api/media_studio.py: \<open>generate_assets\<close>\<close>

subsection \<open>Strings\<close>

text \<open>
  A string is a list of characters with code points below 256. \<open>py_split\<close> is
  \<open>s.split(sep)\<close>, which always gives at least one piece; \<open>py_strip\<close> is
  \<open>s.strip()\<close>, which removes the leading and trailing
  whitespace, which for these code points is what \<open>isspace\<close> lists.
\<close>

fun py_split :: "char \<Rightarrow> string \<Rightarrow> string list" where
  "py_split sep [] = [[]]"
| "py_split sep (c # cs) =
     (if c = sep then [] # py_split sep cs
      else (case py_split sep cs of [] \<Rightarrow> [[c]] | piece # pieces \<Rightarrow> (c # piece) # pieces))"

definition isspace :: "char \<Rightarrow> bool" where
  "isspace c \<longleftrightarrow> c \<in> set [CHR 0x09, CHR 0x0A, CHR 0x0B, CHR 0x0C, CHR 0x0D,
                            CHR 0x1C, CHR 0x1D, CHR 0x1E, CHR 0x1F, CHR 0x20, CHR 0x85, CHR 0xA0]"

definition py_strip :: "string \<Rightarrow> string" where
  "py_strip s = rev (dropWhile isspace (rev (dropWhile isspace s)))"

definition replace_char :: "char \<Rightarrow> char \<Rightarrow> string \<Rightarrow> string" where
  "replace_char old new s = map (\<lambda>c. if c = old then new else c) s"

subsection \<open>The request and the response\<close>

record request =
  req_mode :: string
  req_image :: "string option"
  req_title :: string
  req_cta :: string
  req_title_font_size :: int
  req_cta_font_size :: int
  req_text_position :: string
  req_text_opacity :: rat
  req_logo_enabled :: bool
  req_logo_file :: "string option"
  req_logo_position :: string
  req_logo_size :: int
  req_formats :: string

datatype asset = Asset (format: string) (platform: string) (asset_width: int)
  (asset_height: int) (url: string) (filename: string)

text \<open>
  The JSON response: status 200 with \<open>success: true\<close>, the assets, their count and the
  mode, or status 500 with \<open>success: false\<close> and the error.
\<close>

datatype response = Success (assets: "asset list") (count: nat) (metadata_mode: string)
  | Failure exn

subsection \<open>The loop over the requested formats\<close>

definition catalog :: "string list" where
  "catalog = [''16:9'', ''1:1'', ''9:16'', ''4:5'']"

definition dimensions :: "(string \<times> int \<times> int) list" where
  "dimensions = [(''16:9'', (1200, 675)), (''1:1'', (1080, 1080)),
                 (''9:16'', (1080, 1920)), (''4:5'', (1080, 1350))]"

definition platform_names :: "(string \<times> string) list" where
  "platform_names = [(''16:9'', ''Facebook Feed''), (''1:1'', ''Instagram Square''),
                     (''9:16'', ''Instagram Story''), (''4:5'', ''Facebook/Instagram Portrait'')]"

definition output_path_of :: "string \<Rightarrow> string \<Rightarrow> string" where
  "output_path_of format_key timestamp =
     ''/tmp/output_'' @ replace_char CHR '':'' CHR ''x'' format_key @ ''_'' @ timestamp @ ''.jpg''"

text \<open>
  One pass of the loop body for a catalog format: the asset is generated into a
  temporary file, read back, encoded and appended to the results, and the file is removed.
  An exception leaves the loop.
\<close>

definition format_step ::
  "pil \<Rightarrow> string \<Rightarrow> request \<Rightarrow> string \<Rightarrow> string option \<Rightarrow> string \<Rightarrow> fs \<Rightarrow> exn + (asset \<times> fs)" where
  "format_step lib timestamp req input_path logo_path format_key files =
     (case dict_get dimensions format_key (1080, 1080) of (w, h) \<Rightarrow>
      let output_path = output_path_of format_key timestamp in
      and_then (generate_asset lib files input_path output_path w h (req_title req) (req_cta req)
                  (req_title_font_size req) (req_text_position req)
                  (if req_logo_enabled req then logo_path else None)
                  (req_logo_position req) (req_logo_size req)) (\<lambda>files.
      case files output_path of
        None \<Rightarrow> Inl FileNotFoundError
      | Some bytes \<Rightarrow>
          Inr (Asset format_key (dict_get platform_names format_key ''Social Media'') w h
                 (''data:image/jpeg;base64,'' @ b64encode lib bytes)
                 (''media_studio_'' @ replace_char CHR '':'' CHR ''x'' format_key @ ''_''
                    @ timestamp @ ''.jpg''),
               files(output_path := None))))"

fun format_loop ::
  "pil \<Rightarrow> string \<Rightarrow> request \<Rightarrow> string \<Rightarrow> string option \<Rightarrow> string list \<Rightarrow> fs \<Rightarrow> asset list
     \<Rightarrow> exn + (asset list \<times> fs)" where
  "format_loop lib timestamp req input_path logo_path [] files results = Inr (results, files)"
| "format_loop lib timestamp req input_path logo_path (format_key # rest) files results =
     (if format_key \<notin> set catalog then
        format_loop lib timestamp req input_path logo_path rest files results
      else
        (case format_step lib timestamp req input_path logo_path format_key files of
           Inl e \<Rightarrow> Inl e
         | Inr (a, files') \<Rightarrow>
             format_loop lib timestamp req input_path logo_path rest files' (results @ [a])))"

subsection \<open>\<open>generate_assets\<close>\<close>

text \<open>The placeholder image that stands in when no image is uploaded.\<close>

definition placeholder :: image where
  "placeholder = \<lparr>mode = RGB, width = 1200, height = 1200,
     px = (\<lambda>x y. (py_int (float_add 40 (float_mul (float_div (of_int y) 1200) 60)), 40, 80, 255))\<rparr>"

definition format_list :: "request \<Rightarrow> string list" where
  "format_list req = map py_strip (py_split CHR '','' (req_formats req))"

text \<open>
  The statements before the loop: the uploaded image (or the placeholder) is written to
  the temporary input file, and the uploaded logo, if the logo is enabled and a logo
  file came with the request, to the temporary logo file. The result is
  \<open>(input_path, logo_path, files)\<close>.
\<close>

definition request_setup ::
  "pil \<Rightarrow> fs \<Rightarrow> string \<Rightarrow> request \<Rightarrow> exn + (string \<times> string option \<times> fs)" where
  "request_setup lib files timestamp req =
     (let input_path = ''/tmp/input_'' @ timestamp @ ''.jpg'' in
      and_then (case req_image req of
                  Some content \<Rightarrow> Inr (files(input_path \<mapsto> content))
                | None \<Rightarrow> save lib files placeholder input_path ''JPEG'') (\<lambda>files.
      case req_logo_file req of
        Some bytes \<Rightarrow>
          if req_logo_enabled req then
            Inr (input_path, Some (''/tmp/logo_'' @ timestamp @ ''.png''),
                 files(''/tmp/logo_'' @ timestamp @ ''.png'' \<mapsto> bytes))
          else Inr (input_path, None, files)
      | None \<Rightarrow> Inr (input_path, None, files)))"

text \<open>
  The body of the \<open>try\<close> block, up to the list of results: an exception anywhere in
  it, also inside the loop, is the value \<open>Inl\<close>. The temporary files are removed
  after the loop.
\<close>

definition generate_results :: "pil \<Rightarrow> fs \<Rightarrow> string \<Rightarrow> request \<Rightarrow> exn + (asset list \<times> fs)" where
  "generate_results lib files timestamp req =
     and_then (request_setup lib files timestamp req) (\<lambda>(input_path, logo_path, files).
     and_then (format_loop lib timestamp req input_path logo_path (format_list req) files [])
       (\<lambda>(results, files).
     let files = files(input_path := None);
         files = (case logo_path of None \<Rightarrow> files | Some p \<Rightarrow> files(p := None))
     in Inr (results, files)))"

text \<open>
  \<open>generate_assets\<close>: the \<open>except Exception\<close> handler around the whole body turns an
  exception into the failure response.
\<close>

definition generate_assets :: "pil \<Rightarrow> fs \<Rightarrow> string \<Rightarrow> request \<Rightarrow> response" where
  "generate_assets lib files timestamp req =
     (case generate_results lib files timestamp req of
        Inl e \<Rightarrow> Failure e
      | Inr (results, files) \<Rightarrow> Success results (length results) (req_mode req))"

section \<open>Image objects in a store\<close>

text \<open>
  Pillow images are mutable objects: \<open>paste\<close>, \<open>putalpha\<close> and the \<open>ImageDraw\<close> calls
  change an image in place, and two names may stand for one object. Here every image
  object lives at a reference in a store; \<open>next_ref\<close> is the first reference not yet
  handed out. A call that returns a new image allocates; a call that changes an image
  updates the store at its reference.
\<close>

type_synonym ref = nat

record store =
  objs :: "ref \<Rightarrow> image"
  next_ref :: ref

definition alloc :: "image \<Rightarrow> store \<Rightarrow> ref \<times> store" where
  "alloc v s = (next_ref s, s\<lparr>objs := (objs s)(next_ref s := v), next_ref := Suc (next_ref s)\<rparr>)"

definition update :: "ref \<Rightarrow> (image \<Rightarrow> image) \<Rightarrow> store \<Rightarrow> store" where
  "update r f s = s\<lparr>objs := (objs s)(r := f (objs s r))\<rparr>"

text \<open>
  \<open>add_text_overlay\<close> on the store. \<open>image.copy()\<close>, \<open>Image.new\<close>, \<open>convert\<close> and
  \<open>Image.alpha_composite\<close> each allocate; the drawing calls update \<open>overlay\<close>.
\<close>

definition add_text_overlay_st ::
  "pil \<Rightarrow> fs \<Rightarrow> ref \<Rightarrow> string \<Rightarrow> string \<Rightarrow> int \<Rightarrow> string \<Rightarrow> store \<Rightarrow> (exn + ref) \<times> store" where
  "add_text_overlay_st lib files image0 title cta font_size position s =
     (let (img, s) = alloc (objs s image0) s;
          w = width (objs s img); h = height (objs s img);
          (overlay, s) = alloc (new_image RGBA (img_size (objs s img)) (0, 0, 0, 0)) s;
          (font_title, font_cta) = load_fonts lib files font_size;
          lay = text_layout lib font_title font_cta h title cta position;
          padding = 40;
          bg_y1 = num_int (num_sub (y_start lay) padding);
          bg_y2 = num_int (num_add (num_add (y_start lay) (total_text_height lay)) padding);
          s = update overlay (draw_rectangle lib ((0, bg_y1), (w, bg_y2)) (0, 0, 0, 153)) s;
          title_x = (w - title_width lay) div 2;
          s = update overlay (draw_text lib (title_x, y_start lay) title font_title (255, 255, 255, 255)) s;
          s = (if cta \<noteq> [] then
                 (let cta_y = num_add (num_add (y_start lay) (title_height lay)) 30 in
                  case textbbox lib font_cta cta of (c0, c1, c2, c3) \<Rightarrow>
                  let cta_w = c2 - c0;
                      cta_h = c3 - c1;
                      cta_x = (w - cta_w) div 2;
                      button_padding = 15;
                      button_rect = ((cta_x - button_padding, num_sub cta_y 5),
                                     (cta_x + cta_w + button_padding, num_add (num_add cta_y cta_h) 10));
                      s = update overlay (draw_rounded_rectangle lib button_rect 8 (255, 215, 0, 255)) s
                  in update overlay (draw_text lib (cta_x, cta_y) cta font_cta (0, 0, 0, 255)) s)
               else s);
          (converted, s) = alloc (convert lib RGBA (objs s img)) s
      in case alpha_composite lib (objs s converted) (objs s overlay) of
           Inl e \<Rightarrow> (Inl e, s)
         | Inr v \<Rightarrow>
             let (img, s) = alloc v s;
                 (img, s) = alloc (convert lib RGB (objs s img)) s
             in (Inr img, s))"

text \<open>
  \<open>remove_white_background\<close> on the store: \<open>convert\<close> and \<open>Image.fromarray\<close> allocate
  (\<open>np.array(image)\<close> copies the pixels), \<open>putalpha\<close> updates \<open>result\<close>.
\<close>

definition remove_white_background_st :: "pil \<Rightarrow> ref \<Rightarrow> int \<Rightarrow> int \<Rightarrow> store \<Rightarrow> ref \<times> store" where
  "remove_white_background_st lib image0 threshold feather s =
     (let (image1, s) = (if mode (objs s image0) \<noteq> RGBA
                         then alloc (convert lib RGBA (objs s image0)) s else (image0, s));
          data = (\<lambda>x y. mask_pixel threshold (px (objs s image1) x y));
          (result, s) = alloc ((objs s image1)\<lparr>px := data\<rparr>) s
      in if feather > 0 then
           (let alpha_band = (\<lambda>x y. alpha (px (objs s result) x y));
                alpha_band = gaussian_blur lib feather (img_size (objs s result)) alpha_band
            in (result, update result (\<lambda>img. putalpha img alpha_band) s))
         else (result, s))"

definition prepare_logo_st ::
  "pil \<Rightarrow> fs \<Rightarrow> source \<Rightarrow> bool \<Rightarrow> int \<Rightarrow> store \<Rightarrow> (exn + ref) \<times> store" where
  "prepare_logo_st lib files logo_path remove_background threshold s =
     (case open_image lib files logo_path of
        Inl e \<Rightarrow> (Inl e, s)
      | Inr v \<Rightarrow>
          let (logo, s) = alloc v s;
              (logo, s) = (if mode (objs s logo) \<noteq> RGBA
                           then alloc (convert lib RGBA (objs s logo)) s else (logo, s));
              (logo, s) = (if remove_background
                           then remove_white_background_st lib logo threshold 2 s else (logo, s))
          in (Inr logo, s))"

text \<open>
  \<open>add_image_logo\<close> on the store. \<open>resize\<close>, \<open>Image.merge\<close>, \<open>convert\<close> and
  \<open>image.copy()\<close> allocate; \<open>result.paste\<close> updates \<open>result\<close>. When the caller's image
  is already RGBA, \<open>image\<close> stays the caller's object and \<open>result\<close> is its copy.
\<close>

definition add_image_logo_st ::
  "pil \<Rightarrow> fs \<Rightarrow> ref \<Rightarrow> source \<Rightarrow> string \<Rightarrow> int \<Rightarrow> rat \<Rightarrow> bool \<Rightarrow> store \<Rightarrow> (exn + ref) \<times> store" where
  "add_image_logo_st lib files image0 logo_path position logo_width opacity remove_background s =
     (case prepare_logo_st lib files logo_path remove_background 240 s of
        (Inl e, s) \<Rightarrow> (Inl e, s)
      | (Inr logo, s) \<Rightarrow>
          if width (objs s logo) = 0 then (Inl ZeroDivisionError, s)
          else
            let aspect_ratio = float_div (of_int (height (objs s logo))) (of_int (width (objs s logo)));
                new_height = py_int (float_mul (of_int logo_width) aspect_ratio)
            in case resize lib (objs s logo) (logo_width, new_height) of
                 Inl e \<Rightarrow> (Inl e, s)
               | Inr v \<Rightarrow>
                   let (logo, s) = alloc v s;
                       (logo, s) = alloc (apply_opacity opacity (objs s logo)) s;
                       pos = add_image_logo_pos (width (objs s image0)) (height (objs s image0))
                               (width (objs s logo)) (height (objs s logo)) position;
                       (image1, s) = (if mode (objs s image0) \<noteq> RGBA
                                      then alloc (convert lib RGBA (objs s image0)) s
                                      else (image0, s));
                       (result, s) = alloc (objs s image1) s
                   in case paste lib (objs s result) (objs s logo) pos of
                        Inl e \<Rightarrow> (Inl e, s)
                      | Inr v \<Rightarrow>
                          let s = update result (\<lambda>img. v) s;
                              (result, s) = alloc (convert lib RGB (objs s result)) s
                          in (Inr result, s))"

section \<open>The specification's formulas\<close>

text \<open>The range of an image dimension: positive, and within Pillow's 32-bit sizes.\<close>

definition valid_dim :: "int \<Rightarrow> bool" where
  "valid_dim d \<longleftrightarrow> 0 < d \<and> d < 2 ^ 31"

text \<open>Integer division that truncates toward zero.\<close>

definition trunc_div :: "int \<Rightarrow> int \<Rightarrow> int" where
  "trunc_div a b = sgn a * sgn b * (\<bar>a\<bar> div \<bar>b\<bar>)"

text \<open>
  The crop rectangle \<open>(x, y, width, height)\<close> as the specification of the cover-crop
  words it: the aspects are compared; a relatively wider target keeps the width and
  takes \<open>newHeight = floor(width / targetAspect)\<close> centred vertically with the offset
  \<open>(height - newHeight) / 2\<close> truncated; otherwise the height is kept and
  \<open>newWidth = floor(height * targetAspect)\<close> is centred horizontally. The aspects,
  the quotient and the product are the exact ones.
\<close>

definition cover_crop_rect :: "int \<Rightarrow> int \<Rightarrow> int \<Rightarrow> int \<Rightarrow> int \<times> int \<times> int \<times> int" where
  "cover_crop_rect w h targetWidth targetHeight =
     (let imageAspect = (of_int w :: rat) / of_int h;
          targetAspect = (of_int targetWidth :: rat) / of_int targetHeight
      in if targetAspect > imageAspect then
           (let newHeight = \<lfloor>of_int w / targetAspect\<rfloor>;
                offset = trunc_div (h - newHeight) 2
            in (0, offset, w, newHeight))
         else
           (let newWidth = \<lfloor>of_int h * targetAspect\<rfloor>;
                offset = trunc_div (w - newWidth) 2
            in (offset, 0, newWidth, h)))"

text \<open>
  Rounding to the nearest valid channel value, in the specification's words: the
  nearest integer, kept within \<open>0..255\<close>.
\<close>

definition nearest_channel_value :: "rat \<Rightarrow> int" where
  "nearest_channel_value x = max 0 (min 255 (round x))"

section \<open>Test fixtures\<close>

text \<open>The images of the test suite (conftest.py): a plain photo and a plain red logo.\<close>

definition photo :: image where
  "photo = \<lparr>mode = RGB, width = 1200, height = 800, px = (\<lambda>x y. (73, 109, 137, 255))\<rparr>"

definition red_logo :: image where
  "red_logo = \<lparr>mode = RGBA, width = 200, height = 200, px = (\<lambda>x y. (255, 0, 0, 255))\<rparr>"

text \<open>
  A small stand-in for the imaging library, to run the model on concrete inputs:
  nearest-neighbour resampling, a three-tap horizontal mean for the blur, integer
  source-over blending, no TrueType fonts (so that the built-in font is used, six by
  eleven pixels a character), text and rectangles painted as filled boxes, a codec
  that knows the two fixture images by their names, and memory for resampling
  between images of up to \<open>4096 \<times> 4096\<close> pixels.
\<close>

definition over :: "pixel \<Rightarrow> pixel \<Rightarrow> pixel" where
  "over p q = (case p of (r, g, b, a) \<Rightarrow> case q of (r', g', b', a') \<Rightarrow>
     ((r * (255 - a') + r' * a') div 255, (g * (255 - a') + g' * a') div 255,
      (b * (255 - a') + b' * a') div 255, a' + a * (255 - a') div 255))"

definition pil0 :: pil where
  "pil0 = \<lparr>
     convert_px = (\<lambda>m m' p. case p of (r, g, b, a) \<Rightarrow> (r, g, b, 255)),
     resample = (\<lambda>img sz x y. px img (x * width img div fst sz) (y * height img div snd sz)),
     gaussian_blur = (\<lambda>radius sz band x y.
        (band (max 0 (x - 1)) y + band x y + band (min (fst sz - 1) (x + 1)) y) div 3),
     blend = over,
     composite_px = over,
     truetype = (\<lambda>path sz. Inl OSError),
     load_default = (''default'', 10),
     textbbox = (\<lambda>font text. (0, 0, 6 * int (length text), 11)),
     text_px = (\<lambda>xy text font fill img u v.
        if fst xy \<le> u \<and> u < fst xy + 6 * int (length text)
           \<and> num_int (snd xy) \<le> v \<and> v < num_int (snd xy) + 11
        then fill else px img u v),
     rectangle_px = (\<lambda>xy fill img u v.
        if fst (fst xy) \<le> u \<and> u \<le> fst (snd xy) \<and> snd (fst xy) \<le> v \<and> v \<le> snd (snd xy)
        then fill else px img u v),
     rounded_rectangle_px = (\<lambda>xy radius fill img u v.
        if fst (fst xy) \<le> u \<and> u \<le> fst (snd xy)
           \<and> num_int (snd (fst xy)) \<le> v \<and> v \<le> num_int (snd (snd xy))
        then fill else px img u v),
     decode = (\<lambda>bytes. if bytes = ''PHOTO'' then Inr photo
                        else if bytes = ''LOGO'' then Inr red_logo
                        else Inl UnidentifiedImageError),
     encode = (\<lambda>fmt img. Inr fmt),
     b64encode = (\<lambda>bytes. bytes),
     out_of_memory = (\<lambda>sz sz'. 4096 < fst sz \<or> 4096 < snd sz \<or> 4096 < fst sz' \<or> 4096 < snd sz')\<rparr>"

text \<open>The same library on a machine where encoding the tallest canvas fails.\<close>

definition pil_failing :: pil where
  "pil_failing = pil0\<lparr>encode := (\<lambda>fmt img. if height img = 1920 then Inl OSError else Inr fmt)\<rparr>"

text \<open>A request with the defaults of the form fields and the photo as the upload.\<close>

definition request0 :: request where
  "request0 = \<lparr>req_mode = ''from-image'', req_image = Some ''PHOTO'', req_title = '''',
     req_cta = '''', req_title_font_size = 68, req_cta_font_size = 50,
     req_text_position = ''center'', req_text_opacity = float_literal (6/10),
     req_logo_enabled = True, req_logo_file = None, req_logo_position = ''top-right'',
     req_logo_size = 90, req_formats = ''16:9,1:1,9:16,4:5''\<rparr>"

text \<open>A three-pixel RGBA row: a black pixel between two white ones, all opaque.\<close>

definition strip3 :: image where
  "strip3 = \<lparr>mode = RGBA, width = 3, height = 1,
     px = (\<lambda>x y. if x = 1 then (0, 0, 0, 255) else (255, 255, 255, 255))\<rparr>"

text \<open>A store that holds one image, the photo, at reference 0.\<close>

definition store0 :: store where
  "store0 = \<lparr>objs = (\<lambda>r. photo), next_ref = 1\<rparr>"

section \<open>Properties of float rounding\<close>

lemma round_half_even_cases:
  "round_half_even x = \<lfloor>x\<rfloor> \<or> round_half_even x = \<lfloor>x\<rfloor> + 1"
  by (simp add: round_half_even_def Let_def)

lemma round_half_even_error: "\<bar>of_int (round_half_even x) - x\<bar> \<le> 1/2"
proof -
  have "of_int \<lfloor>x\<rfloor> \<le> x" "x < of_int \<lfloor>x\<rfloor> + 1" by linarith+
  then show ?thesis
    by (auto simp: round_half_even_def Let_def abs_le_iff)
qed

lemma round_half_even_of_int [simp]: "round_half_even (of_int n) = n"
  by (simp add: round_half_even_def)

lemma round_half_even_mono:
  assumes "x \<le> y" shows "round_half_even x \<le> round_half_even y"
proof (cases "\<lfloor>x\<rfloor> = \<lfloor>y\<rfloor>")
  case True
  with assms show ?thesis
    by (auto simp: round_half_even_def Let_def)
next
  case False
  with assms have "\<lfloor>x\<rfloor> + 1 \<le> \<lfloor>y\<rfloor>"
    using floor_mono [OF assms] by linarith
  moreover have "round_half_even x \<le> \<lfloor>x\<rfloor> + 1" "\<lfloor>y\<rfloor> \<le> round_half_even y"
    using round_half_even_cases [of x] round_half_even_cases [of y] by auto
  ultimately show ?thesis by linarith
qed

lemma ilog2_bounds:
  assumes "0 < x"
  shows "2 powi (ilog2 x) \<le> x \<and> x < 2 powi (ilog2 x + 1)"
proof -
  obtain p q where pq: "quotient_of x = (p, q)" by (cases "quotient_of x")
  then have q: "0 < q" and x: "x = of_int p / of_int q"
    using quotient_of_denom_pos quotient_of_div by auto
  with assms have p: "0 < p" by (simp add: zero_less_divide_iff)
  define a where "a = floorlog 2 (nat p)"
  define b where "b = floorlog 2 (nat q)"
  have pa: "2 ^ (a - 1) \<le> nat p" "nat p < 2 ^ a"
    using floorlog_bounds [of "nat p" 2] p by (auto simp: a_def)
  have qb: "2 ^ (b - 1) \<le> nat q" "nat q < 2 ^ b"
    using floorlog_bounds [of "nat q" 2] q by (auto simp: b_def)
  have a0: "0 < a" and b0: "0 < b"
    using p q by (auto simp: a_def b_def floorlog_def)
  have P1: "(2::rat) powi (int a - 1) \<le> of_int p"
  proof -
    have "(2::rat) ^ (a - 1) \<le> of_nat (nat p)" using pa(1) by (metis of_nat_le_iff of_nat_numeral of_nat_power)
    moreover have "int a - 1 = int (a - 1)" using a0 by simp
    ultimately show ?thesis using p by (simp del: of_nat_diff)
  qed
  have P2: "of_int p < (2::rat) powi (int a)"
  proof -
    have "of_nat (nat p) < (2::rat) ^ a" using pa(2) by (metis of_nat_less_iff of_nat_numeral of_nat_power)
    then show ?thesis using p by simp
  qed
  have Q1: "(2::rat) powi (int b - 1) \<le> of_int q"
  proof -
    have "(2::rat) ^ (b - 1) \<le> of_nat (nat q)" using qb(1) by (metis of_nat_le_iff of_nat_numeral of_nat_power)
    moreover have "int b - 1 = int (b - 1)" using b0 by simp
    ultimately show ?thesis using q by (simp del: of_nat_diff)
  qed
  have Q2: "of_int q < (2::rat) powi (int b)"
  proof -
    have "of_nat (nat q) < (2::rat) ^ b" using qb(2) by (metis of_nat_less_iff of_nat_numeral of_nat_power)
    then show ?thesis using q by simp
  qed
  define d where "d = int a - int b"
  have qpos: "(0::rat) < of_int q" using q by simp
  have lower: "(2::rat) powi (d - 1) \<le> x"
  proof -
    have "(2::rat) powi (d - 1) * of_int q \<le> 2 powi (d - 1) * 2 powi (int b)"
      using Q2 by (simp add: less_imp_le)
    also have "\<dots> = 2 powi (int a - 1)"
      by (simp add: d_def power_int_add [symmetric] del: power_int_of_nat)
    also have "\<dots> \<le> of_int p" by (rule P1)
    finally show ?thesis using qpos by (simp add: x pos_le_divide_eq)
  qed
  have upper: "x < (2::rat) powi (d + 1)"
  proof -
    have "of_int p < (2::rat) powi (int a)" by (rule P2)
    also have "\<dots> = 2 powi (d + 1) * 2 powi (int b - 1)"
      by (simp add: d_def power_int_add [symmetric] del: power_int_of_nat)
    also have "\<dots> \<le> 2 powi (d + 1) * of_int q"
      using Q1 by simp
    finally show ?thesis using qpos by (simp add: x pos_divide_less_eq)
  qed
  have il: "ilog2 x = (if 2 powi d \<le> x then d else d - 1)"
    by (simp add: ilog2_def pq a_def b_def d_def Let_def bitlen_def)
  show ?thesis
  proof (cases "2 powi d \<le> x")
    case True
    then show ?thesis using upper by (simp add: il)
  next
    case False
    then show ?thesis using lower by (simp add: il)
  qed
qed


lemma pow2_pos [simp]: "(0::rat) < 2 powi e"
  by (simp add: zero_less_power_int)

lemma pow2_mono: "a \<le> b \<Longrightarrow> (2::rat) powi a \<le> 2 powi b"
  by (rule power_int_increasing) simp_all

lemma pow2_strict_mono: "a < b \<Longrightarrow> (2::rat) powi a < 2 powi b"
  by (rule power_int_strict_increasing) simp_all

lemma pow2_add: "(2::rat) powi a * 2 powi b = 2 powi (a + b)"
  by (simp add: power_int_add)

lemma pow2_div: "(2::rat) powi a / 2 powi b = 2 powi (a - b)"
  by (simp add: power_int_diff)

lemma ilog2_unique:
  assumes "0 < x" and "2 powi e \<le> x" and "x < 2 powi (e + 1)"
  shows "ilog2 x = e"
proof (rule ccontr)
  assume ne: "ilog2 x \<noteq> e"
  note b = ilog2_bounds [OF assms(1)]
  show False
  proof (cases "ilog2 x < e")
    case True
    then have "(2::rat) powi (ilog2 x + 1) \<le> 2 powi e" by (intro pow2_mono) simp
    with b assms(2) show False by linarith
  next
    case False
    with ne have "e + 1 \<le> ilog2 x" by simp
    then have "(2::rat) powi (e + 1) \<le> 2 powi (ilog2 x)" by (rule pow2_mono)
    with b assms(3) show False by linarith
  qed
qed

lemma ilog2_mono:
  assumes "0 < x" and "x \<le> y"
  shows "ilog2 x \<le> ilog2 y"
proof (rule ccontr)
  assume "\<not> ilog2 x \<le> ilog2 y"
  then have "ilog2 y + 1 \<le> ilog2 x" by simp
  then have "(2::rat) powi (ilog2 y + 1) \<le> 2 powi (ilog2 x)" by (rule pow2_mono)
  moreover have "0 < y" using assms by simp
  ultimately show False
    using ilog2_bounds [OF assms(1)] ilog2_bounds [OF \<open>0 < y\<close>] assms(2) by linarith
qed

lemma ilog2_scale:
  assumes "0 < x"
  shows "ilog2 (x * 2 powi j) = ilog2 x + j"
proof (rule ilog2_unique)
  note b = ilog2_bounds [OF assms]
  show "0 < x * 2 powi j" using assms by simp
  have "2 powi (ilog2 x + j) = 2 powi (ilog2 x) * (2::rat) powi j" by (simp add: pow2_add)
  also have "\<dots> \<le> x * 2 powi j" using b by simp
  finally show "2 powi (ilog2 x + j) \<le> x * 2 powi j" .
  have "x * 2 powi j < 2 powi (ilog2 x + 1) * (2::rat) powi j" using b by simp
  also have "\<dots> = 2 powi (ilog2 x + j + 1)" by (simp add: pow2_add algebra_simps)
  finally show "x * 2 powi j < 2 powi (ilog2 x + j + 1)" .
qed

text \<open>The significand of a positive number: in \<open>[2^52, 2^53)\<close> before rounding.\<close>

lemma significand_bounds:
  assumes "0 < x"
  shows "2 ^ 52 \<le> x / 2 powi (ilog2 x - 52) \<and> x / 2 powi (ilog2 x - 52) < 2 ^ 53"
proof -
  note b = ilog2_bounds [OF assms]
  have "(2::rat) ^ 52 * 2 powi (ilog2 x - 52) = 2 powi (ilog2 x)"
    using pow2_add [of 52 "ilog2 x - 52"] by simp
  moreover have "(2::rat) ^ 53 * 2 powi (ilog2 x - 52) = 2 powi (ilog2 x + 1)"
    using pow2_add [of 53 "ilog2 x - 52"] by (simp add: add.commute)
  ultimately show ?thesis
    using b by (simp add: pos_le_divide_eq pos_divide_less_eq)
qed

lemma float_round_pos_eq:
  "0 < x \<Longrightarrow> float_round x =
     of_int (round_half_even (x / 2 powi (ilog2 x - 52))) * 2 powi (ilog2 x - 52)"
  by (simp add: float_round_def Let_def)

lemma float_round_minus: "float_round (- x) = - float_round x"
  by (simp add: float_round_def Let_def sgn_minus)

lemma float_round_0 [simp]: "float_round 0 = 0"
  by (simp add: float_round_def)

lemma rounded_significand_bounds:
  assumes "0 < x"
  shows "2 ^ 52 \<le> round_half_even (x / 2 powi (ilog2 x - 52))
       \<and> round_half_even (x / 2 powi (ilog2 x - 52)) \<le> 2 ^ 53"
proof -
  note s = significand_bounds [OF assms]
  have "round_half_even (of_int (2 ^ 52)) \<le> round_half_even (x / 2 powi (ilog2 x - 52))"
    by (rule round_half_even_mono) (use s in simp)
  moreover have "round_half_even (x / 2 powi (ilog2 x - 52)) \<le> round_half_even (of_int (2 ^ 53))"
    by (rule round_half_even_mono) (use s in simp)
  ultimately show ?thesis by (simp only: round_half_even_of_int)
qed

lemma float_round_range:
  assumes "0 < x"
  shows "2 powi (ilog2 x) \<le> float_round x \<and> float_round x \<le> 2 powi (ilog2 x + 1)"
proof -
  let ?s = "(2::rat) powi (ilog2 x - 52)"
  let ?m = "round_half_even (x / ?s)"
  note m = rounded_significand_bounds [OF assms]
  have m1: "(2::rat) ^ 52 \<le> of_int ?m"
    using m by (metis of_int_le_iff of_int_numeral of_int_power)
  have m2: "of_int ?m \<le> (2::rat) ^ 53"
    using m by (metis of_int_le_iff of_int_numeral of_int_power)
  have "(2::rat) powi (ilog2 x) = 2 ^ 52 * ?s"
    using pow2_add [of 52 "ilog2 x - 52"] by simp
  also have "\<dots> \<le> of_int ?m * ?s"
    using m1 by (intro mult_right_mono) simp_all
  finally have lo: "2 powi (ilog2 x) \<le> of_int ?m * ?s" .
  have "of_int ?m * ?s \<le> 2 ^ 53 * ?s"
    using m2 by (intro mult_right_mono) simp_all
  also have "\<dots> = 2 powi (ilog2 x + 1)"
    using pow2_add [of 53 "ilog2 x - 52"] by (simp add: add.commute)
  finally have hi: "of_int ?m * ?s \<le> 2 powi (ilog2 x + 1)" .
  show ?thesis
    unfolding float_round_pos_eq [OF assms] using lo hi by blast
qed

lemma float_round_pos: "0 < x \<Longrightarrow> 0 < float_round x"
  using float_round_range [of x] pow2_pos [of "ilog2 x"] by linarith

lemma float_round_nonneg: "0 \<le> x \<Longrightarrow> 0 \<le> float_round x"
  using float_round_pos [of x] by (cases "x = 0") (auto simp: less_le)

lemma float_round_mono_pos:
  assumes "0 < x" and "x \<le> y"
  shows "float_round x \<le> float_round y"
proof -
  have y: "0 < y" using assms by simp
  show ?thesis
  proof (cases "ilog2 x = ilog2 y")
    case True
    let ?s = "(2::rat) powi (ilog2 y - 52)"
    have "x / ?s \<le> y / ?s" using assms(2) by (simp add: divide_right_mono)
    then have "round_half_even (x / ?s) \<le> round_half_even (y / ?s)"
      by (rule round_half_even_mono)
    then have "(of_int (round_half_even (x / ?s)) :: rat) * ?s \<le> of_int (round_half_even (y / ?s)) * ?s"
      by simp
    then show ?thesis
      by (simp add: float_round_pos_eq [OF assms(1)] float_round_pos_eq [OF y] True)
  next
    case False
    with ilog2_mono [OF assms] have "ilog2 x + 1 \<le> ilog2 y" by simp
    then have "(2::rat) powi (ilog2 x + 1) \<le> 2 powi (ilog2 y)" by (rule pow2_mono)
    then show ?thesis
      using float_round_range [OF assms(1)] float_round_range [OF y] by linarith
  qed
qed

lemma float_round_mono:
  assumes "x \<le> y"
  shows "float_round x \<le> float_round y"
proof -
  consider "0 < x" | "x \<le> 0" "0 \<le> y" | "y < 0" by linarith
  then show ?thesis
  proof cases
    case 1
    then show ?thesis using assms by (rule float_round_mono_pos)
  next
    case 2
    have "float_round x \<le> 0"
      using float_round_nonneg [of "- x"] 2(1) by (simp add: float_round_minus)
    moreover have "0 \<le> float_round y" using 2(2) by (rule float_round_nonneg)
    ultimately show ?thesis by simp
  next
    case 3
    then have "0 < - y" "- y \<le> - x" using assms by simp_all
    then have "float_round (- y) \<le> float_round (- x)" by (rule float_round_mono_pos)
    then show ?thesis by (simp add: float_round_minus)
  qed
qed

text \<open>A number with a significand of at most 53 bits is a double: rounding leaves it.\<close>

lemma float_round_representable_pos:
  assumes "0 < k" and "k < 2 ^ 53"
  shows "float_round (of_int k * 2 powi j) = of_int k * 2 powi j"
proof -
  let ?x = "of_int k * (2::rat) powi j"
  have kpos: "(0::rat) < of_int k" using assms(1) by simp
  have xpos: "0 < ?x" using kpos by simp
  have "of_int k < (2::rat) ^ 53" using assms(2) by (metis of_int_less_iff of_int_numeral of_int_power)
  then have "(2::rat) powi (ilog2 (of_int k)) < 2 powi 53"
    using ilog2_bounds [OF kpos] by simp
  then have "ilog2 (of_int k :: rat) < 53"
    by (meson leD leI pow2_mono)
  then have "0 \<le> 52 - ilog2 (of_int k :: rat)" by simp
  then obtain n where n: "52 - ilog2 (of_int k :: rat) = int n"
    using nonneg_int_cases by blast
  have e: "ilog2 ?x - 52 = j - int n"
    using ilog2_scale [OF kpos, of j] n by simp
  have "?x / 2 powi (ilog2 ?x - 52) = of_int k * (2 powi j / 2 powi (j - int n))"
    by (simp add: e)
  also have "\<dots> = of_int k * 2 powi (int n)" by (simp add: pow2_div)
  also have "\<dots> = of_int (k * 2 ^ n)" by simp
  finally have "?x / 2 powi (ilog2 ?x - 52) = of_int (k * 2 ^ n)" .
  then have "float_round ?x = of_int (k * 2 ^ n) * 2 powi (ilog2 ?x - 52)"
    by (simp only: float_round_pos_eq [OF xpos] round_half_even_of_int)
  also have "\<dots> = of_int k * (2 powi (int n) * 2 powi (j - int n))"
    by (simp add: e)
  also have "\<dots> = ?x" by (simp only: pow2_add) simp
  finally show ?thesis .
qed

lemma float_round_representable:
  assumes "\<bar>k\<bar> < 2 ^ 53"
  shows "float_round (of_int k * 2 powi j) = of_int k * 2 powi j"
proof -
  consider "0 < k" | "k = 0" | "k < 0" by linarith
  then show ?thesis
  proof cases
    case 1
    then show ?thesis using assms by (intro float_round_representable_pos) simp_all
  next
    case 2
    then show ?thesis by simp
  next
    case 3
    then have "float_round (of_int (- k) * 2 powi j) = of_int (- k) * 2 powi j"
      using assms by (intro float_round_representable_pos) simp_all
    then show ?thesis
      using float_round_minus [of "of_int k * 2 powi j"] by simp
  qed
qed

lemma float_round_of_int:
  "\<bar>n\<bar> < 2 ^ 53 \<Longrightarrow> float_round (of_int n) = of_int n"
  using float_round_representable [of n 0] by simp

lemma float_round_idem: "float_round (float_round x) = float_round x"
proof -
  have pos: "float_round (float_round x) = float_round x" if "0 < x" for x
  proof -
    let ?e = "ilog2 x - 52"
    let ?m = "round_half_even (x / 2 powi ?e)"
    note m = rounded_significand_bounds [OF that]
    show ?thesis
    proof (cases "?m = 2 ^ 53")
      case True
      have "float_round x = 2 ^ 53 * 2 powi ?e"
        by (simp add: float_round_pos_eq [OF that] True)
      also have "\<dots> = of_int 1 * 2 powi (?e + 53)"
        using pow2_add [of 53 ?e] by (simp add: add.commute)
      finally have eq: "float_round x = of_int 1 * 2 powi (?e + 53)" .
      show ?thesis
        unfolding eq by (rule float_round_representable) simp
    next
      case False
      with m have "\<bar>?m\<bar> < 2 ^ 53" by simp
      then show ?thesis
        unfolding float_round_pos_eq [OF that] by (rule float_round_representable)
    qed
  qed
  consider "0 < x" | "x = 0" | "0 < - x" by linarith
  then show ?thesis
  proof cases
    case 1
    then show ?thesis by (rule pos)
  next
    case 2
    then show ?thesis by simp
  next
    case 3
    from pos [OF 3] show ?thesis by (simp add: float_round_minus)
  qed
qed

lemma float_round_error_pos:
  assumes "0 < x"
  shows "\<bar>float_round x - x\<bar> \<le> x / 2 ^ 53"
proof -
  let ?s = "(2::rat) powi (ilog2 x - 52)"
  let ?m = "round_half_even (x / ?s)"
  have "\<bar>of_int ?m - x / ?s\<bar> \<le> 1 / 2" by (rule round_half_even_error)
  then have "\<bar>of_int ?m - x / ?s\<bar> * ?s \<le> 1 / 2 * ?s" by simp
  moreover have "\<bar>of_int ?m - x / ?s\<bar> * ?s = \<bar>of_int ?m * ?s - x\<bar>"
  proof -
    have "\<bar>of_int ?m - x / ?s\<bar> * ?s = \<bar>(of_int ?m - x / ?s) * ?s\<bar>"
      by (simp add: abs_mult)
    also have "(of_int ?m - x / ?s) * ?s = of_int ?m * ?s - x"
      by (simp add: algebra_simps)
    finally show ?thesis .
  qed
  moreover have "1 / 2 * ?s \<le> x / 2 ^ 53"
  proof -
    have "(2::rat) ^ 53 * (1 / 2 * ?s) = 2 ^ 52 * ?s" by simp
    also have "\<dots> = 2 powi (ilog2 x)" using pow2_add [of 52 "ilog2 x - 52"] by simp
    also have "\<dots> \<le> x" using ilog2_bounds [OF assms] by simp
    finally have "(2::rat) ^ 53 * (1 / 2 * ?s) \<le> x" .
    then show ?thesis by (simp add: pos_le_divide_eq mult.commute)
  qed
  ultimately show ?thesis by (simp add: float_round_pos_eq [OF assms])
qed

lemma float_round_error: "\<bar>float_round x - x\<bar> \<le> \<bar>x\<bar> / 2 ^ 53"
proof -
  consider "0 < x" | "x = 0" | "0 < - x" by linarith
  then show ?thesis
  proof cases
    case 1
    then show ?thesis using float_round_error_pos [OF 1] by simp
  next
    case 2
    then show ?thesis by simp
  next
    case 3
    from float_round_error_pos [OF 3] have "\<bar>- float_round x + x\<bar> \<le> - x / 2 ^ 53"
      by (simp add: float_round_minus)
    moreover have "\<bar>- float_round x + x\<bar> = \<bar>float_round x - x\<bar>" by linarith
    ultimately show ?thesis using 3 by simp
  qed
qed

section \<open>The crop box of \<open>smart_crop\<close>\<close>

lemma valid_dim_float: "valid_dim d \<Longrightarrow> float_round (of_int d) = of_int d"
  by (rule float_round_of_int) (simp add: valid_dim_def)

lemma py_int_nonneg: "0 \<le> x \<Longrightarrow> py_int x = \<lfloor>x\<rfloor>"
  by (simp add: py_int_def)

lemma trunc_div_nonneg: "0 \<le> a \<Longrightarrow> trunc_div a 2 = a div 2"
  by (cases "a = 0") (simp_all add: trunc_div_def)

lemma ratio_pos:
  assumes "valid_dim a" and "valid_dim b"
  shows "0 < float_div (of_int a) (of_int b)"
  unfolding float_div_def using assms by (intro float_round_pos) (simp add: valid_dim_def)

text \<open>A float above the rounded quotient is above the quotient itself.\<close>

lemma above_rounded:
  assumes "float_round q < float_round t"
  shows "q < float_round t"
proof (rule ccontr)
  assume "\<not> q < float_round t"
  then have "float_round t \<le> q" by simp
  then have "float_round (float_round t) \<le> float_round q" by (rule float_round_mono)
  with assms show False by (simp add: float_round_idem)
qed

lemma new_height_bounds:
  assumes w: "valid_dim w" and h: "valid_dim h" and tw: "valid_dim tw" and th: "valid_dim th"
    and wider: "float_div (of_int tw) (of_int th) > float_div (of_int w) (of_int h)"
  shows "0 \<le> float_div (of_int w) (float_div (of_int tw) (of_int th))"
    and "\<lfloor>float_div (of_int w) (float_div (of_int tw) (of_int th))\<rfloor> \<le> h"
proof -
  let ?tr = "float_div (of_int tw) (of_int th)"
  have trpos: "0 < ?tr" using tw th by (rule ratio_pos)
  have wpos: "(0::rat) < of_int w" and hpos: "(0::rat) < of_int h"
    using w h by (simp_all add: valid_dim_def)
  show "0 \<le> float_div (of_int w) ?tr"
    unfolding float_div_def [of "of_int w"] using wpos trpos
    by (intro float_round_nonneg) simp
  have "of_int w / of_int h < ?tr"
    using wider unfolding float_div_def by (rule above_rounded)
  then have "of_int w < ?tr * of_int h" using hpos by (simp add: pos_divide_less_eq)
  then have "of_int w / ?tr < of_int h" using trpos by (simp add: pos_divide_less_eq mult.commute)
  then have "float_round (of_int w / ?tr) \<le> float_round (of_int h)"
    by (intro float_round_mono) simp
  then have "float_div (of_int w) ?tr \<le> of_int h"
    using h by (simp add: float_div_def [of "of_int w"] valid_dim_float)
  then show "\<lfloor>float_div (of_int w) ?tr\<rfloor> \<le> h"
    by (simp add: floor_le_iff)
qed

lemma new_width_bounds:
  assumes w: "valid_dim w" and h: "valid_dim h" and tw: "valid_dim tw" and th: "valid_dim th"
    and taller: "\<not> float_div (of_int tw) (of_int th) > float_div (of_int w) (of_int h)"
  shows "0 \<le> float_mul (of_int h) (float_div (of_int tw) (of_int th))"
    and "\<lfloor>float_mul (of_int h) (float_div (of_int tw) (of_int th))\<rfloor> \<le> w"
proof -
  let ?tr = "float_div (of_int tw) (of_int th)"
  let ?ir = "float_div (of_int w) (of_int h)"
  have trpos: "0 < ?tr" using tw th by (rule ratio_pos)
  have wpos: "(0::rat) < of_int w" and hpos: "(0::rat) < of_int h"
    using w h by (simp_all add: valid_dim_def)
  show "0 \<le> float_mul (of_int h) ?tr"
    unfolding float_mul_def using hpos trpos by (intro float_round_nonneg) simp
  have qpos: "(0::rat) < of_int w / of_int h" using wpos hpos by simp
  have "?ir - of_int w / of_int h \<le> (of_int w / of_int h) / 2 ^ 53"
    using float_round_error_pos [OF qpos] by (simp add: float_div_def abs_le_iff)
  then have "?ir \<le> of_int w / of_int h + (of_int w / of_int h) / 2 ^ 53" by simp
  then have "of_int h * ?ir \<le> of_int h * (of_int w / of_int h + (of_int w / of_int h) / 2 ^ 53)"
    using hpos by (intro mult_left_mono) simp_all
  also have "\<dots> = of_int w + of_int w / 2 ^ 53"
    using hpos by (simp add: field_simps)
  also have "\<dots> \<le> of_int w + 1 / 2"
  proof -
    have "w \<le> 2 ^ 52" using w by (simp add: valid_dim_def)
    then have "(of_int w :: rat) \<le> 2 ^ 52" by (metis of_int_le_iff of_int_numeral of_int_power)
    then show ?thesis by simp
  qed
  finally have le: "of_int h * ?ir \<le> of_int w + 1 / 2" .
  have "of_int h * ?tr \<le> of_int h * ?ir"
    using taller hpos by (intro mult_left_mono) simp_all
  with le have "of_int h * ?tr \<le> of_int w + 1 / 2" by simp
  then have "float_round (of_int h * ?tr) \<le> float_round (of_int w + 1 / 2)"
    by (rule float_round_mono)
  also have "float_round (of_int w + 1 / 2) = of_int w + 1 / 2"
  proof -
    have "\<bar>2 * w + 1\<bar> < 2 ^ 53" using w by (simp add: valid_dim_def)
    from float_round_representable [OF this, of "- 1"]
    show ?thesis by (simp add: power_int_minus field_simps)
  qed
  finally have "float_mul (of_int h) ?tr < of_int w + 1"
    by (simp add: float_mul_def)
  then show "\<lfloor>float_mul (of_int h) ?tr\<rfloor> \<le> w"
    by (metis floor_less_iff of_int_1 of_int_add zle_add1_eq_le zless_add1_eq)
qed


lemma smart_crop_box_wider:
  assumes "h \<noteq> 0" and "th \<noteq> 0"
    and "float_div (of_int tw) (of_int th) > float_div (of_int w) (of_int h)"
    and "float_div (of_int tw) (of_int th) \<noteq> 0"
    and "nh = py_int (float_div (of_int w) (float_div (of_int tw) (of_int th)))"
  shows "smart_crop_box w h tw th = Inr (0, (h - nh) div 2, w, (h - nh) div 2 + nh)"
  using assms by (simp add: smart_crop_box_def Let_def)

lemma smart_crop_box_taller:
  assumes "h \<noteq> 0" and "th \<noteq> 0"
    and "\<not> float_div (of_int tw) (of_int th) > float_div (of_int w) (of_int h)"
    and "nw = py_int (float_mul (of_int h) (float_div (of_int tw) (of_int th)))"
  shows "smart_crop_box w h tw th = Inr ((w - nw) div 2, 0, (w - nw) div 2 + nw, h)"
  using assms by (simp add: smart_crop_box_def Let_def)

text \<open>The product \<open>h * target_ratio\<close> on the branch of the taller target.\<close>

lemma taller_product_le:
  assumes w: "valid_dim w" and h: "valid_dim h"
    and taller: "\<not> tr > float_div (of_int w) (of_int h)"
  shows "of_int h * tr \<le> of_int w + 1 / 2"
proof -
  let ?ir = "float_div (of_int w) (of_int h)"
  have wpos: "(0::rat) < of_int w" and hpos: "(0::rat) < of_int h"
    using w h by (simp_all add: valid_dim_def)
  have qpos: "(0::rat) < of_int w / of_int h" using wpos hpos by simp
  have "?ir - of_int w / of_int h \<le> (of_int w / of_int h) / 2 ^ 53"
    using float_round_error_pos [OF qpos] by (simp add: float_div_def abs_le_iff)
  then have "?ir \<le> of_int w / of_int h + (of_int w / of_int h) / 2 ^ 53" by simp
  then have "of_int h * ?ir \<le> of_int h * (of_int w / of_int h + (of_int w / of_int h) / 2 ^ 53)"
    using hpos by (intro mult_left_mono) simp_all
  also have "\<dots> = of_int w + of_int w / 2 ^ 53"
    using hpos by (simp add: field_simps)
  also have "\<dots> \<le> of_int w + 1 / 2"
  proof -
    have "w \<le> 2 ^ 52" using w by (simp add: valid_dim_def)
    then have "(of_int w :: rat) \<le> 2 ^ 52" by (metis of_int_le_iff of_int_numeral of_int_power)
    then show ?thesis by simp
  qed
  finally have le: "of_int h * ?ir \<le> of_int w + 1 / 2" .
  have "of_int h * tr \<le> of_int h * ?ir"
    using taller hpos by (intro mult_left_mono) simp_all
  with le show ?thesis by simp
qed

text \<open>
  How far the float results are from the exact quotient and product: less than one,
  for dimensions below \<open>2^31\<close>.
\<close>

lemma of_int_dim_less: "valid_dim d \<Longrightarrow> (of_int d :: rat) < 2 ^ 31"
proof -
  assume "valid_dim d"
  then have "d < 2 ^ 31" by (simp add: valid_dim_def)
  then show ?thesis by (metis of_int_less_iff of_int_numeral of_int_power)
qed

lemma float_round_near:
  assumes "0 < x" and "x \<le> 2 ^ 32"
  shows "\<bar>float_round x - x\<bar> \<le> 1 / 2 ^ 21"
proof -
  have "\<bar>float_round x - x\<bar> \<le> x / 2 ^ 53" using assms(1) by (rule float_round_error_pos)
  also have "\<dots> \<le> 2 ^ 32 / 2 ^ 53" using assms(2) by (intro divide_right_mono) simp_all
  also have "\<dots> = (1::rat) / 2 ^ 21" by simp
  finally show ?thesis .
qed

lemma float_wider_exact:
  assumes "float_round a < float_round b"
  shows "a < b"
proof (rule ccontr)
  assume "\<not> a < b"
  then have "b \<le> a" by simp
  then have "float_round b \<le> float_round a" by (rule float_round_mono)
  with assms show False by simp
qed

lemma floor_close:
  fixes a b :: rat
  assumes "\<bar>a - b\<bar> < 1"
  shows "\<bar>\<lfloor>a\<rfloor> - \<lfloor>b\<rfloor>\<bar> \<le> 1"
proof -
  have "of_int \<lfloor>a\<rfloor> \<le> a" "a < of_int \<lfloor>a\<rfloor> + 1" "of_int \<lfloor>b\<rfloor> \<le> b" "b < of_int \<lfloor>b\<rfloor> + 1"
    by linarith+
  with assms have "(of_int \<lfloor>a\<rfloor> :: rat) < of_int (\<lfloor>b\<rfloor> + 2)" "(of_int \<lfloor>b\<rfloor> :: rat) < of_int (\<lfloor>a\<rfloor> + 2)"
    by simp_all linarith+
  then have "\<lfloor>a\<rfloor> < \<lfloor>b\<rfloor> + 2" "\<lfloor>b\<rfloor> < \<lfloor>a\<rfloor> + 2" by (simp_all only: of_int_less_iff)
  then show ?thesis by linarith
qed

lemma new_height_close:
  assumes w: "valid_dim w" and h: "valid_dim h" and tw: "valid_dim tw" and th: "valid_dim th"
    and wider: "float_div (of_int tw) (of_int th) > float_div (of_int w) (of_int h)"
  shows "\<bar>float_div (of_int w) (float_div (of_int tw) (of_int th))
          - of_int w / (of_int tw / of_int th)\<bar> < 1"
proof -
  define rt :: rat where "rt = of_int tw / of_int th"
  define tr where "tr = float_div (of_int tw) (of_int th)"
  define q where "q = of_int w / tr"
  have trpos: "0 < tr" unfolding tr_def using tw th by (rule ratio_pos)
  have wpos: "(0::rat) < of_int w" and hpos: "(0::rat) < of_int h"
    using w h by (simp_all add: valid_dim_def)
  have rtpos: "0 < rt" using tw th by (simp add: rt_def valid_dim_def)
  have tr: "tr = float_round rt" by (simp add: tr_def rt_def float_div_def)
  have "of_int w / of_int h < tr"
    using wider unfolding tr_def float_div_def by (rule above_rounded)
  then have "of_int w < tr * of_int h" using hpos by (simp add: pos_divide_less_eq)
  then have "q < of_int h" using trpos by (simp add: q_def pos_divide_less_eq mult.commute)
  with of_int_dim_less [OF h] have qlt: "q < 2 ^ 31" by simp
  have qpos: "0 < q" using wpos trpos by (simp add: q_def)
  have "\<bar>tr - rt\<bar> \<le> rt / 2 ^ 53" unfolding tr using rtpos by (rule float_round_error_pos)
  then have "\<bar>tr - rt\<bar> / rt \<le> (rt / 2 ^ 53) / rt" using rtpos by (intro divide_right_mono) simp_all
  then have rel: "\<bar>(rt - tr) / rt\<bar> \<le> 1 / 2 ^ 53" using rtpos by (simp add: abs_minus_commute)
  have "q - of_int w / rt = q * ((rt - tr) / rt)"
    using trpos rtpos by (simp add: q_def field_simps)
  then have "\<bar>q - of_int w / rt\<bar> = q * \<bar>(rt - tr) / rt\<bar>"
    using qpos by (simp add: abs_mult)
  also have "\<dots> \<le> q * (1 / 2 ^ 53)" using rel qpos by (intro mult_left_mono) simp_all
  also have "\<dots> \<le> 2 ^ 31 * (1 / 2 ^ 53)" using qlt by (intro mult_right_mono) simp_all
  finally have 1: "\<bar>q - of_int w / rt\<bar> \<le> 1 / 2 ^ 22" by simp
  have 2: "\<bar>float_round q - q\<bar> \<le> 1 / 2 ^ 21" using qpos qlt by (intro float_round_near) simp_all
  have "\<bar>float_round q - of_int w / rt\<bar> \<le> \<bar>float_round q - q\<bar> + \<bar>q - of_int w / rt\<bar>" by simp
  with 1 2 have "\<bar>float_round q - of_int w / rt\<bar> < 1" by simp
  then show ?thesis by (simp add: q_def tr_def rt_def float_div_def [of "of_int w"])
qed

lemma new_width_close:
  assumes w: "valid_dim w" and h: "valid_dim h" and tw: "valid_dim tw" and th: "valid_dim th"
    and taller: "\<not> float_div (of_int tw) (of_int th) > float_div (of_int w) (of_int h)"
    and exact: "(of_int tw :: rat) / of_int th \<le> of_int w / of_int h"
  shows "\<bar>float_mul (of_int h) (float_div (of_int tw) (of_int th))
          - of_int h * (of_int tw / of_int th)\<bar> < 1"
proof -
  define rt :: rat where "rt = of_int tw / of_int th"
  define tr where "tr = float_div (of_int tw) (of_int th)"
  define p where "p = of_int h * tr"
  have trpos: "0 < tr" unfolding tr_def using tw th by (rule ratio_pos)
  have wpos: "(0::rat) < of_int w" and hpos: "(0::rat) < of_int h"
    using w h by (simp_all add: valid_dim_def)
  have rtpos: "0 < rt" using tw th by (simp add: rt_def valid_dim_def)
  have tr: "tr = float_round rt" by (simp add: tr_def rt_def float_div_def)
  have ppos: "0 < p" using hpos trpos by (simp add: p_def)
  have "p \<le> of_int w + 1 / 2"
    unfolding p_def using w h taller [folded tr_def] by (rule taller_product_le)
  with of_int_dim_less [OF w] have ple: "p \<le> 2 ^ 32" by simp
  have "of_int h * rt \<le> of_int h * (of_int w / of_int h)"
    using exact hpos unfolding rt_def by (intro mult_left_mono) simp_all
  also have "\<dots> = of_int w" using hpos by simp
  finally have hrt: "of_int h * rt < 2 ^ 31" using of_int_dim_less [OF w] by simp
  have "\<bar>tr - rt\<bar> \<le> rt / 2 ^ 53" unfolding tr using rtpos by (rule float_round_error_pos)
  then have "of_int h * \<bar>tr - rt\<bar> \<le> of_int h * (rt / 2 ^ 53)"
    using hpos by (intro mult_left_mono) simp_all
  also have "\<dots> = (of_int h * rt) / 2 ^ 53" by simp
  also have "\<dots> \<le> 2 ^ 31 / 2 ^ 53" using hrt by (intro divide_right_mono) simp_all
  finally have "of_int h * \<bar>tr - rt\<bar> \<le> 1 / 2 ^ 22" by simp
  moreover have "\<bar>p - of_int h * rt\<bar> = of_int h * \<bar>tr - rt\<bar>"
    using hpos by (simp add: p_def abs_mult flip: right_diff_distrib)
  ultimately have 1: "\<bar>p - of_int h * rt\<bar> \<le> 1 / 2 ^ 22" by simp
  have 2: "\<bar>float_round p - p\<bar> \<le> 1 / 2 ^ 21" using ppos ple by (rule float_round_near)
  have "\<bar>float_round p - of_int h * rt\<bar> \<le> \<bar>float_round p - p\<bar> + \<bar>p - of_int h * rt\<bar>" by simp
  with 1 2 have "\<bar>float_round p - of_int h * rt\<bar> < 1" by simp
  then show ?thesis by (simp add: p_def tr_def rt_def float_mul_def)
qed

text \<open>
  The two ratios can round to the same float while the target is exactly wider; the
  source then takes the branch of the taller target. The exact new height is then
  \<open>h - 1\<close>, and the width that the source keeps is \<open>w\<close> or \<open>w - 1\<close>.
\<close>

lemma rounded_together:
  assumes w: "valid_dim w" and h: "valid_dim h" and tw: "valid_dim tw" and th: "valid_dim th"
    and taller: "\<not> float_div (of_int tw) (of_int th) > float_div (of_int w) (of_int h)"
    and exact: "(of_int tw :: rat) / of_int th > of_int w / of_int h"
  shows "\<lfloor>of_int w / ((of_int tw :: rat) / of_int th)\<rfloor> = h - 1"
    and "w - 1 \<le> \<lfloor>float_mul (of_int h) (float_div (of_int tw) (of_int th))\<rfloor>"
proof -
  define rt :: rat where "rt = of_int tw / of_int th"
  define ri :: rat where "ri = of_int w / of_int h"
  define tr where "tr = float_div (of_int tw) (of_int th)"
  define ir where "ir = float_div (of_int w) (of_int h)"
  define p where "p = of_int h * tr"
  define e where "e = of_int w / rt"
  have trpos: "0 < tr" unfolding tr_def using tw th by (rule ratio_pos)
  have wpos: "(0::rat) < of_int w" and hpos: "(0::rat) < of_int h"
    using w h by (simp_all add: valid_dim_def)
  have rtpos: "0 < rt" using tw th by (simp add: rt_def valid_dim_def)
  have ripos: "0 < ri" using wpos hpos by (simp add: ri_def)
  have tr: "tr = float_round rt" by (simp add: tr_def rt_def float_div_def)
  have ir: "ir = float_round ri" by (simp add: ir_def ri_def float_div_def)
  have hlt: "(of_int h :: rat) < 2 ^ 31" and wlt: "(of_int w :: rat) < 2 ^ 31"
    using of_int_dim_less h w by simp_all
  have le: "tr \<le> ir" using taller by (simp add: tr_def ir_def)
  have "\<bar>tr - rt\<bar> \<le> rt / 2 ^ 53" unfolding tr using rtpos by (rule float_round_error_pos)
  then have "rt - rt / 2 ^ 53 \<le> tr" by linarith
  moreover have "rt * (1 - 1 / 2 ^ 53) = rt - rt / 2 ^ 53" by (simp add: algebra_simps)
  ultimately have t1: "rt * (1 - 1 / 2 ^ 53) \<le> tr" by (simp only:)
  have "\<bar>ir - ri\<bar> \<le> ri / 2 ^ 53" unfolding ir using ripos by (rule float_round_error_pos)
  then have "ir \<le> ri + ri / 2 ^ 53" by linarith
  moreover have "ri * (1 + 1 / 2 ^ 53) = ri + ri / 2 ^ 53" by (simp add: algebra_simps)
  ultimately have t2: "ir \<le> ri * (1 + 1 / 2 ^ 53)" by (simp only:)
  from t1 le t2 have "rt * (1 - 1 / 2 ^ 53) \<le> ri * (1 + 1 / 2 ^ 53)" by simp
  then have "rt * (1 - 1 / 2 ^ 53) * (of_int h / rt) \<le> ri * (1 + 1 / 2 ^ 53) * (of_int h / rt)"
    using hpos rtpos by (intro mult_right_mono) simp_all
  moreover have "rt * (1 - 1 / 2 ^ 53) * (of_int h / rt) = of_int h * (1 - 1 / 2 ^ 53)"
    using rtpos by simp
  moreover have "ri * (1 + 1 / 2 ^ 53) * (of_int h / rt) = e * (1 + 1 / 2 ^ 53)"
    using rtpos hpos by (simp add: ri_def e_def)
  ultimately have low: "of_int h * (1 - 1 / 2 ^ 53) \<le> e * (1 + 1 / 2 ^ 53)" by simp
  have "ri < rt" using exact by (simp add: ri_def rt_def)
  then have "of_int w < rt * of_int h" using hpos by (simp add: ri_def pos_divide_less_eq)
  then have up: "e < of_int h" using rtpos by (simp add: e_def pos_divide_less_eq mult.commute)
  have "of_int h - 1 \<le> e" using low hlt by (simp add: field_simps)
  then have "of_int (h - 1) \<le> e" "e < of_int (h - 1) + 1" using up by simp_all
  then have "\<lfloor>e\<rfloor> = h - 1" by (intro floor_unique)
  then show "\<lfloor>of_int w / ((of_int tw :: rat) / of_int th)\<rfloor> = h - 1" by (simp add: e_def rt_def)
  have ppos: "0 < p" using hpos trpos by (simp add: p_def)
  have "p \<le> of_int w + 1 / 2"
    unfolding p_def using w h taller [folded tr_def] by (rule taller_product_le)
  with wlt have ple: "p \<le> 2 ^ 32" by simp
  have "of_int h * (rt * (1 - 1 / 2 ^ 53)) \<le> p"
    unfolding p_def using t1 hpos by (intro mult_left_mono) simp_all
  moreover have "of_int w < of_int h * rt" using \<open>of_int w < rt * of_int h\<close> by (simp add: mult.commute)
  then have "of_int w * (1 - 1 / 2 ^ 53) \<le> of_int h * rt * (1 - 1 / 2 ^ 53)"
    by (intro mult_right_mono) simp_all
  ultimately have "of_int w * (1 - 1 / 2 ^ 53) \<le> p" by (simp add: mult.assoc)
  with wlt have plow: "of_int w - 1 / 2 ^ 22 \<le> p" by (simp add: field_simps)
  have "\<bar>float_round p - p\<bar> \<le> 1 / 2 ^ 21" using ppos ple by (rule float_round_near)
  also have "\<dots> \<le> (1::rat) / 2" by simp
  finally have "\<bar>float_round p - p\<bar> \<le> 1 / 2" .
  moreover have "of_int w - 1 / 2 \<le> p" using plow by simp
  ultimately have "of_int w - 1 \<le> float_round p" by linarith
  then have "of_int (w - 1) \<le> float_round p" by simp
  then have "w - 1 \<le> \<lfloor>float_round p\<rfloor>" by (simp only: le_floor_iff)
  then show "w - 1 \<le> \<lfloor>float_mul (of_int h) (float_div (of_int tw) (of_int th))\<rfloor>"
    by (simp add: p_def tr_def float_mul_def)
qed

text \<open>The box of \<open>smart_crop\<close> lies inside the image and is never inverted.\<close>

lemma smart_crop_box_inside:
  assumes w: "valid_dim w" and h: "valid_dim h" and tw: "valid_dim tw" and th: "valid_dim th"
  shows "\<exists>x y cw ch. smart_crop_box w h tw th = Inr (x, y, x + cw, y + ch)
    \<and> 0 \<le> x \<and> 0 \<le> y \<and> 0 \<le> cw \<and> 0 \<le> ch \<and> x + cw \<le> w \<and> y + ch \<le> h"
proof -
  let ?tr = "float_div (of_int tw) (of_int th)"
  let ?ir = "float_div (of_int w) (of_int h)"
  have nz: "h \<noteq> 0" "th \<noteq> 0" using h th by (auto simp: valid_dim_def)
  have trpos: "0 < ?tr" using tw th by (rule ratio_pos)
  have hw: "0 < h" "0 < w" using w h by (auto simp: valid_dim_def)
  show ?thesis
  proof (cases "?tr > ?ir")
    case True
    define nh where "nh = \<lfloor>float_div (of_int w) ?tr\<rfloor>"
    note b = new_height_bounds [OF w h tw th True]
    have nh: "0 \<le> nh" "nh \<le> h" using b by (simp_all add: nh_def)
    have "nh = py_int (float_div (of_int w) ?tr)" using b(1) by (simp add: nh_def py_int_nonneg)
    from smart_crop_box_wider [OF nz True _ this] trpos
    have "smart_crop_box w h tw th = Inr (0, (h - nh) div 2, 0 + w, (h - nh) div 2 + nh)" by simp
    moreover have "0 \<le> (h - nh) div 2" "(h - nh) div 2 + nh \<le> h" using nh by simp_all
    ultimately show ?thesis using nh hw by (metis less_imp_le order_refl add_0)
  next
    case False
    define nw where "nw = \<lfloor>float_mul (of_int h) ?tr\<rfloor>"
    note b = new_width_bounds [OF w h tw th False]
    have nw: "0 \<le> nw" "nw \<le> w" using b by (simp_all add: nw_def)
    have "nw = py_int (float_mul (of_int h) ?tr)" using b(1) by (simp add: nw_def py_int_nonneg)
    from smart_crop_box_taller [OF nz False this]
    have "smart_crop_box w h tw th = Inr ((w - nw) div 2, 0, (w - nw) div 2 + nw, 0 + h)" by simp
    moreover have "0 \<le> (w - nw) div 2" "(w - nw) div 2 + nw \<le> w" using nw by simp_all
    ultimately show ?thesis using nw hw by (metis less_imp_le order_refl add_0)
  qed
qed

lemma cover_crop_rect_wider:
  assumes "(of_int tw :: rat) / of_int th > of_int w / of_int h"
    and "nh = \<lfloor>of_int w / ((of_int tw :: rat) / of_int th)\<rfloor>"
  shows "cover_crop_rect w h tw th = (0, trunc_div (h - nh) 2, w, nh)"
  using assms by (simp add: cover_crop_rect_def Let_def)

lemma cover_crop_rect_taller:
  assumes "\<not> (of_int tw :: rat) / of_int th > of_int w / of_int h"
    and "nw = \<lfloor>of_int h * ((of_int tw :: rat) / of_int th)\<rfloor>"
  shows "cover_crop_rect w h tw th = (trunc_div (w - nw) 2, 0, nw, h)"
  using assms by (simp add: cover_crop_rect_def Let_def)

lemma half_close:
  fixes a b c :: int
  assumes "\<bar>a - b\<bar> \<le> 1"
  shows "\<bar>(c - a) div 2 - (c - b) div 2\<bar> \<le> 1"
  using assms by linarith

text \<open>
  The box of \<open>smart_crop\<close> against the rectangle of the specification: the same
  formulas on the float quotients and product, inside the image, and within one
  pixel of the exact rectangle in every coordinate.
\<close>

lemma smart_crop_box_near_exact:
  assumes w: "valid_dim w" and h: "valid_dim h" and tw: "valid_dim tw" and th: "valid_dim th"
    and rect: "cover_crop_rect w h tw th = (x, y, cw, ch)"
  shows "\<exists>x' y' cw' ch'.
      smart_crop_box w h tw th = Inr (x', y', x' + cw', y' + ch')
    \<and> (if float_div (of_int tw) (of_int th) > float_div (of_int w) (of_int h)
       then x' = 0 \<and> cw' = w
          \<and> ch' = \<lfloor>float_div (of_int w) (float_div (of_int tw) (of_int th))\<rfloor>
          \<and> y' = trunc_div (h - ch') 2
       else y' = 0 \<and> ch' = h
          \<and> cw' = \<lfloor>float_mul (of_int h) (float_div (of_int tw) (of_int th))\<rfloor>
          \<and> x' = trunc_div (w - cw') 2)
    \<and> 0 \<le> x' \<and> 0 \<le> y' \<and> 0 \<le> cw' \<and> 0 \<le> ch' \<and> x' + cw' \<le> w \<and> y' + ch' \<le> h
    \<and> \<bar>x' - x\<bar> \<le> 1 \<and> \<bar>y' - y\<bar> \<le> 1 \<and> \<bar>cw' - cw\<bar> \<le> 1 \<and> \<bar>ch' - ch\<bar> \<le> 1"
proof -
  let ?tr = "float_div (of_int tw) (of_int th)"
  let ?ir = "float_div (of_int w) (of_int h)"
  let ?rt = "(of_int tw :: rat) / of_int th"
  let ?ri = "(of_int w :: rat) / of_int h"
  have nz: "h \<noteq> 0" "th \<noteq> 0" using h th by (auto simp: valid_dim_def)
  have trpos: "0 < ?tr" using tw th by (rule ratio_pos)
  have hw: "0 < h" "0 < w" using w h by (auto simp: valid_dim_def)
  have wpos: "(0::rat) < of_int w" and hpos: "(0::rat) < of_int h"
    using w h by (simp_all add: valid_dim_def)
  have rtpos: "0 < ?rt" using tw th by (simp add: valid_dim_def)
  consider (wider) "?tr > ?ir" | (taller) "\<not> ?tr > ?ir" "?rt \<le> ?ri"
    | (together) "\<not> ?tr > ?ir" "?rt > ?ri"
    by linarith
  then show ?thesis
  proof cases
    case wider
    define nh' where "nh' = \<lfloor>float_div (of_int w) ?tr\<rfloor>"
    define nh where "nh = \<lfloor>of_int w / ?rt\<rfloor>"
    note b = new_height_bounds [OF w h tw th wider]
    have nh': "0 \<le> nh'" "nh' \<le> h" using b by (simp_all add: nh'_def)
    have "nh' = py_int (float_div (of_int w) ?tr)" using b(1) by (simp add: nh'_def py_int_nonneg)
    from smart_crop_box_wider [OF nz wider _ this] trpos
    have sb: "smart_crop_box w h tw th = Inr (0, (h - nh') div 2, 0 + w, (h - nh') div 2 + nh')"
      by simp
    have ex: "?ri < ?rt" using wider unfolding float_div_def by (rule float_wider_exact)
    then have "of_int w < ?rt * of_int h" using hpos by (simp only: pos_divide_less_eq)
    then have "of_int w / ?rt < of_int h"
      using rtpos by (simp only: pos_divide_less_eq mult.commute)
    then have "nh < h" by (simp only: nh_def floor_less_iff)
    then have t: "trunc_div (h - nh) 2 = (h - nh) div 2" by (intro trunc_div_nonneg) simp
    have t': "trunc_div (h - nh') 2 = (h - nh') div 2" using nh' by (intro trunc_div_nonneg) simp
    from cover_crop_rect_wider [OF ex nh_def] rect t
    have r: "x = 0" "y = (h - nh) div 2" "cw = w" "ch = nh" by simp_all
    have c: "\<bar>nh' - nh\<bar> \<le> 1"
      unfolding nh'_def nh_def by (rule floor_close) (rule new_height_close [OF w h tw th wider])
    have "\<bar>(h - nh') div 2 - (h - nh) div 2\<bar> \<le> 1" using c by (rule half_close)
    with sb nh' hw r c t' wider show ?thesis
      by - (rule exI [of _ 0], rule exI [of _ "(h - nh') div 2"], rule exI [of _ w], rule exI [of _ nh'],
        simp add: nh'_def)
  next
    case taller
    define nw' where "nw' = \<lfloor>float_mul (of_int h) ?tr\<rfloor>"
    define nw where "nw = \<lfloor>of_int h * ?rt\<rfloor>"
    note b = new_width_bounds [OF w h tw th taller(1)]
    have nw': "0 \<le> nw'" "nw' \<le> w" using b by (simp_all add: nw'_def)
    have "nw' = py_int (float_mul (of_int h) ?tr)" using b(1) by (simp add: nw'_def py_int_nonneg)
    from smart_crop_box_taller [OF nz taller(1) this]
    have sb: "smart_crop_box w h tw th = Inr ((w - nw') div 2, 0, (w - nw') div 2 + nw', 0 + h)"
      by simp
    have "of_int h * ?rt \<le> of_int h * ?ri" using taller(2) hpos by (intro mult_left_mono) simp_all
    also have "\<dots> = of_int w" using hpos by simp
    finally have "of_int h * ?rt < of_int w + 1" by simp
    then have "nw \<le> w" by (simp only: nw_def floor_le_iff)
    then have t: "trunc_div (w - nw) 2 = (w - nw) div 2" by (intro trunc_div_nonneg) simp
    have t': "trunc_div (w - nw') 2 = (w - nw') div 2" using nw' by (intro trunc_div_nonneg) simp
    have nex: "\<not> ?rt > ?ri" using taller(2) by simp
    from cover_crop_rect_taller [OF nex nw_def] rect t
    have r: "x = (w - nw) div 2" "y = 0" "cw = nw" "ch = h" by simp_all
    have c: "\<bar>nw' - nw\<bar> \<le> 1"
      unfolding nw'_def nw_def by (rule floor_close) (rule new_width_close [OF w h tw th taller])
    have "\<bar>(w - nw') div 2 - (w - nw) div 2\<bar> \<le> 1" using c by (rule half_close)
    with sb nw' hw r c t' taller(1) show ?thesis
      by - (rule exI [of _ "(w - nw') div 2"], rule exI [of _ 0], rule exI [of _ nw'], rule exI [of _ h],
        simp add: nw'_def)
  next
    case together
    define nw' where "nw' = \<lfloor>float_mul (of_int h) ?tr\<rfloor>"
    define nh where "nh = \<lfloor>of_int w / ?rt\<rfloor>"
    note b = new_width_bounds [OF w h tw th together(1)]
    note g = rounded_together [OF w h tw th together]
    have nw': "0 \<le> nw'" "nw' \<le> w" "w - 1 \<le> nw'" using b g(2) by (simp_all add: nw'_def)
    have "nw' = py_int (float_mul (of_int h) ?tr)" using b(1) by (simp add: nw'_def py_int_nonneg)
    from smart_crop_box_taller [OF nz together(1) this]
    have sb: "smart_crop_box w h tw th = Inr ((w - nw') div 2, 0, (w - nw') div 2 + nw', 0 + h)"
      by simp
    have z: "(w - nw') div 2 = 0" using nw' by simp
    have t': "trunc_div (w - nw') 2 = (w - nw') div 2" using nw' by (intro trunc_div_nonneg) simp
    have nh: "nh = h - 1" using g(1) by (simp add: nh_def)
    have "trunc_div (h - nh) 2 = 0" by (simp add: nh trunc_div_def)
    with cover_crop_rect_wider [OF together(2) nh_def] rect
    have r: "x = 0" "y = 0" "cw = w" "ch = nh" by simp_all
    from sb nw' hw r nh t' z together(1) show ?thesis
      by - (rule exI [of _ "(w - nw') div 2"], rule exI [of _ 0], rule exI [of _ nw'], rule exI [of _ h],
        simp add: nw'_def)
  qed
qed

lemma crop_size:
  "left \<le> right \<Longrightarrow> upper \<le> lower \<Longrightarrow>
   max 1 (right - left) * max 1 (lower - upper) \<le> 2 * MAX_IMAGE_PIXELS \<Longrightarrow>
   \<exists>c. crop img (left, upper, right, lower) = Inr c \<and> width c = right - left
       \<and> height c = lower - upper \<and> mode c = mode img"
  by (simp add: crop_def)

lemma crop_Inr:
  "crop img (left, upper, right, lower) = Inr c \<Longrightarrow>
   width c = right - left \<and> height c = lower - upper \<and> mode c = mode img"
  by (auto simp: crop_def split: if_splits)

lemma crop_Inl:
  "crop img (left, upper, right, lower) = Inl e \<Longrightarrow> left \<le> right \<Longrightarrow> upper \<le> lower \<Longrightarrow>
   e = DecompressionBombError
     \<and> 2 * MAX_IMAGE_PIXELS < max 1 (right - left) * max 1 (lower - upper)"
  by (auto simp: crop_def split: if_splits)

lemma resize_size:
  "1 \<le> tw \<Longrightarrow> 1 \<le> th \<Longrightarrow> tw \<le> max_line \<Longrightarrow> c_int th \<Longrightarrow>
   \<not> out_of_memory lib (img_size img) (tw, th) \<Longrightarrow>
   \<exists>out. resize lib img (tw, th) = Inr out \<and> width out = tw \<and> height out = th \<and> mode out = mode img"
  by (auto simp: resize_def img_size_def c_int_def max_line_def INT_MAX_def)

lemma resize_Inr:
  "resize lib img (tw, th) = Inr out \<Longrightarrow>
   width out = tw \<and> height out = th \<and> mode out = mode img"
  by (auto simp: resize_def img_size_def split: if_splits)

lemma resize_Inl:
  "resize lib img (tw, th) = Inl e \<Longrightarrow> 1 \<le> tw \<Longrightarrow> 1 \<le> th \<Longrightarrow> c_int tw \<Longrightarrow> c_int th \<Longrightarrow>
   e = MemoryError \<and> (max_line < tw \<or> out_of_memory lib (img_size img) (tw, th))"
  by (auto simp: resize_def split: if_splits)

lemma convert_size [simp]:
  "width (convert lib m img) = width img" "height (convert lib m img) = height img"
  "mode (convert lib m img) = m"
  by (simp_all add: convert_def)

text \<open>
  Claim C2. \<open>smart_crop\<close> selects its crop box with the formulas of the specification
  evaluated in float arithmetic: the two aspects are float quotients; a target whose
  aspect is the larger float keeps the full width and \<open>floor(width / targetAspect)\<close>
  rows, centred vertically with the truncated offset \<open>(height - newHeight) / 2\<close>;
  otherwise the full height is kept with \<open>floor(height * targetAspect)\<close> columns,
  centred horizontally. For positive dimensions below \<open>2^31\<close> that box lies inside the
  image and every coordinate of it is within one pixel of the rectangle that the
  same formulas give in exact arithmetic; \<open>smart_crop\<close> returns that crop resized.
\<close>

theorem smart_crop_box_within_one_pixel:
  assumes "valid_dim (width img)" and "valid_dim (height img)"
    and "valid_dim target_width" and "valid_dim target_height"
    and "cover_crop_rect (width img) (height img) target_width target_height = (x, y, cw, ch)"
  shows "\<exists>x' y' cw' ch'.
      smart_crop_box (width img) (height img) target_width target_height
        = Inr (x', y', x' + cw', y' + ch')
    \<and> (if float_div (of_int target_width) (of_int target_height)
            > float_div (of_int (width img)) (of_int (height img))
       then x' = 0 \<and> cw' = width img
          \<and> ch' = \<lfloor>float_div (of_int (width img))
                     (float_div (of_int target_width) (of_int target_height))\<rfloor>
          \<and> y' = trunc_div (height img - ch') 2
       else y' = 0 \<and> ch' = height img
          \<and> cw' = \<lfloor>float_mul (of_int (height img))
                     (float_div (of_int target_width) (of_int target_height))\<rfloor>
          \<and> x' = trunc_div (width img - cw') 2)
    \<and> 0 \<le> x' \<and> 0 \<le> y' \<and> 0 \<le> cw' \<and> 0 \<le> ch'
    \<and> x' + cw' \<le> width img \<and> y' + ch' \<le> height img
    \<and> \<bar>x' - x\<bar> \<le> 1 \<and> \<bar>y' - y\<bar> \<le> 1 \<and> \<bar>cw' - cw\<bar> \<le> 1 \<and> \<bar>ch' - ch\<bar> \<le> 1
    \<and> smart_crop lib img target_width target_height
        = and_then (crop (if mode img \<noteq> RGB then convert lib RGB img else img)
                      (x', y', x' + cw', y' + ch'))
            (\<lambda>cropped. resize lib cropped (target_width, target_height))"
proof -
  let ?rgb = "if mode img \<noteq> RGB then convert lib RGB img else img"
  from smart_crop_box_near_exact [OF assms] obtain x' y' cw' ch' where
    b: "smart_crop_box (width img) (height img) target_width target_height
          = Inr (x', y', x' + cw', y' + ch')"
    and rest: "(if float_div (of_int target_width) (of_int target_height)
            > float_div (of_int (width img)) (of_int (height img))
       then x' = 0 \<and> cw' = width img
          \<and> ch' = \<lfloor>float_div (of_int (width img))
                     (float_div (of_int target_width) (of_int target_height))\<rfloor>
          \<and> y' = trunc_div (height img - ch') 2
       else y' = 0 \<and> ch' = height img
          \<and> cw' = \<lfloor>float_mul (of_int (height img))
                     (float_div (of_int target_width) (of_int target_height))\<rfloor>
          \<and> x' = trunc_div (width img - cw') 2)
    \<and> 0 \<le> x' \<and> 0 \<le> y' \<and> 0 \<le> cw' \<and> 0 \<le> ch'
    \<and> x' + cw' \<le> width img \<and> y' + ch' \<le> height img
    \<and> \<bar>x' - x\<bar> \<le> 1 \<and> \<bar>y' - y\<bar> \<le> 1 \<and> \<bar>cw' - cw\<bar> \<le> 1 \<and> \<bar>ch' - ch\<bar> \<le> 1"
    by blast
  have "width ?rgb = width img" "height ?rgb = height img" by simp_all
  then have "smart_crop lib img target_width target_height
      = and_then (crop ?rgb (x', y', x' + cw', y' + ch'))
          (\<lambda>cropped. resize lib cropped (target_width, target_height))"
    using b by (simp add: smart_crop_def and_then_def Let_def)
  with b rest show ?thesis
    by - (rule exI [of _ x'], rule exI [of _ y'], rule exI [of _ cw'], rule exI [of _ ch'],
      elim conjE, intro conjI, assumption+)
qed

theorem smart_crop_box_within_one_pixel_witness:
  "valid_dim (width photo) \<and> valid_dim (height photo) \<and> valid_dim 1200 \<and> valid_dim 675
   \<and> cover_crop_rect (width photo) (height photo) 1200 675 = (0, 62, 1200, 675)
   \<and> smart_crop_box (width photo) (height photo) 1200 675 = Inr (0, 62, 1200, 737)
   \<and> smart_crop pil0 photo 1200 675
       = and_then (crop photo (0, 62, 1200, 737)) (\<lambda>cropped. resize pil0 cropped (1200, 675))"
proof -
  have d: "valid_dim (width photo)" "valid_dim (height photo)" "valid_dim 1200" "valid_dim 675"
    by (simp_all add: valid_dim_def photo_def)
  have r: "cover_crop_rect (width photo) (height photo) 1200 675 = (0, 62, 1200, 675)"
    by code_simp
  have s: "smart_crop_box (width photo) (height photo) 1200 675 = Inr (0, 62, 1200, 737)"
    by code_simp
  have m: "mode photo = RGB" by (simp add: photo_def)
  from smart_crop_box_within_one_pixel [OF d r, of pil0] obtain x' y' cw' ch' where
    b: "smart_crop_box (width photo) (height photo) 1200 675 = Inr (x', y', x' + cw', y' + ch')"
    and c: "smart_crop pil0 photo 1200 675
        = and_then (crop (if mode photo \<noteq> RGB then convert pil0 RGB photo else photo)
                      (x', y', x' + cw', y' + ch'))
            (\<lambda>cropped. resize pil0 cropped (1200, 675))"
    by blast
  from b s have "(x', y', x' + cw', y' + ch') = (0, 62, 1200, 737)" by simp
  with c m have "smart_crop pil0 photo 1200 675
       = and_then (crop photo (0, 62, 1200, 737)) (\<lambda>cropped. resize pil0 cropped (1200, 675))"
    by simp
  with d r s show ?thesis by (simp only: simp_thms)
qed

text \<open>
  The box of \<open>smart_crop\<close> is not always the exact rectangle. For a \<open>35 \<times> 100\<close> image
  and the target \<open>7 \<times> 3\<close> the float quotient \<open>35 / (7 / 3)\<close> is just below 15: the source
  keeps 14 rows from row 43, the exact formula 15 rows from row 42. For a \<open>1 \<times> 49\<close>
  image and the target \<open>1 \<times> 49\<close> the float product \<open>49 * (1 / 49)\<close> is just below 1 and
  the source keeps no column.
\<close>

theorem smart_crop_box_exact_counterexample:
  "cover_crop_rect 35 100 7 3 = (0, 42, 35, 15)
   \<and> smart_crop_box 35 100 7 3 = Inr (0, 43, 35, 43 + 14)
   \<and> cover_crop_rect 1 49 1 49 = (0, 0, 1, 49)
   \<and> smart_crop_box 1 49 1 49 = Inr (0, 0, 0 + 0, 49)"
  by code_simp

text \<open>
  Claim C3. For a source image and a target with positive dimensions, every canvas
  that \<open>smart_crop\<close> returns has exactly the target size, whatever the aspect of the
  source and the rounding in the crop box. It returns one whenever the source has no
  more pixels than Pillow's limit for cropping, the target width is within the
  longest line that Pillow allocates and the library has the memory for the
  resampling; it raises nothing but \<open>DecompressionBombError\<close> and \<open>MemoryError\<close>, and
  only outside those bounds.
\<close>

theorem smart_crop_exact_size:
  assumes "valid_dim (width img)" and "valid_dim (height img)"
    and "valid_dim target_width" and "valid_dim target_height"
  shows "\<exists>left upper right lower.
      smart_crop_box (width img) (height img) target_width target_height
        = Inr (left, upper, right, lower)
    \<and> (\<forall>out. smart_crop lib img target_width target_height = Inr out \<longrightarrow>
          width out = target_width \<and> height out = target_height \<and> mode out = RGB)
    \<and> (\<forall>e. smart_crop lib img target_width target_height = Inl e \<longrightarrow>
          e = DecompressionBombError \<and> 2 * MAX_IMAGE_PIXELS < width img * height img
        \<or> e = MemoryError
          \<and> (max_line < target_width
             \<or> out_of_memory lib (right - left, lower - upper) (target_width, target_height)))
    \<and> (width img * height img \<le> 2 * MAX_IMAGE_PIXELS \<and> target_width \<le> max_line
        \<and> \<not> out_of_memory lib (right - left, lower - upper) (target_width, target_height)
        \<longrightarrow> (\<exists>out. smart_crop lib img target_width target_height = Inr out
               \<and> width out = target_width \<and> height out = target_height \<and> mode out = RGB))"
proof -
  let ?rgb = "if mode img \<noteq> RGB then convert lib RGB img else img"
  let ?sc = "smart_crop lib img target_width target_height"
  from smart_crop_box_inside [OF assms] obtain x y cw ch where
    b: "smart_crop_box (width img) (height img) target_width target_height
          = Inr (x, y, x + cw, y + ch)"
    and i: "0 \<le> cw" "0 \<le> ch" "0 \<le> x" "0 \<le> y" "x + cw \<le> width img" "y + ch \<le> height img"
    by blast
  have t: "1 \<le> target_width" "1 \<le> target_height" "c_int target_width" "c_int target_height"
    using assms by (simp_all add: valid_dim_def c_int_def INT_MAX_def)
  have rgb: "mode ?rgb = RGB" by simp
  have "width ?rgb = width img" "height ?rgb = height img" by simp_all
  then have sc: "?sc = and_then (crop ?rgb (x, y, x + cw, y + ch))
      (\<lambda>cropped. resize lib cropped (target_width, target_height))"
    using b by (simp add: smart_crop_def and_then_def Let_def)
  have le: "x \<le> x + cw" "y \<le> y + ch" using i by simp_all
  have area: "max 1 cw * max 1 ch \<le> width img * height img"
  proof -
    have "max 1 cw \<le> width img" "max 1 ch \<le> height img"
      using i assms by (simp_all add: valid_dim_def)
    moreover have "0 \<le> max 1 cw" "0 \<le> max 1 ch" by simp_all
    ultimately show ?thesis by (intro mult_mono) simp_all
  qed
  have sizes: "width out = target_width \<and> height out = target_height \<and> mode out = RGB"
    if "?sc = Inr out" for out
  proof -
    from that sc obtain c where c: "crop ?rgb (x, y, x + cw, y + ch) = Inr c"
      and r: "resize lib c (target_width, target_height) = Inr out"
      by (auto simp: and_then_def split: sum.splits)
    from crop_Inr [OF c] rgb have "mode c = RGB" by simp
    with resize_Inr [OF r] show ?thesis by simp
  qed
  have errors: "e = DecompressionBombError \<and> 2 * MAX_IMAGE_PIXELS < width img * height img
        \<or> e = MemoryError
          \<and> (max_line < target_width
             \<or> out_of_memory lib (x + cw - x, y + ch - y) (target_width, target_height))"
    if "?sc = Inl e" for e
  proof (cases "crop ?rgb (x, y, x + cw, y + ch)")
    case (Inl e')
    with that sc have "e' = e" by (simp add: and_then_def)
    with crop_Inl [OF Inl le] area show ?thesis by simp
  next
    case (Inr c)
    with that sc have r: "resize lib c (target_width, target_height) = Inl e"
      by (simp add: and_then_def)
    from crop_Inr [OF Inr] have "img_size c = (x + cw - x, y + ch - y)"
      by (simp add: img_size_def)
    with resize_Inl [OF r t] show ?thesis by simp
  qed
  have total: "\<exists>out. ?sc = Inr out
               \<and> width out = target_width \<and> height out = target_height \<and> mode out = RGB"
    if "width img * height img \<le> 2 * MAX_IMAGE_PIXELS" and "target_width \<le> max_line"
      and "\<not> out_of_memory lib (x + cw - x, y + ch - y) (target_width, target_height)"
  proof -
    have "max 1 (x + cw - x) * max 1 (y + ch - y) \<le> 2 * MAX_IMAGE_PIXELS"
      using area that(1) by simp
    from crop_size [OF le this, of ?rgb] obtain c where
      c: "crop ?rgb (x, y, x + cw, y + ch) = Inr c" "width c = x + cw - x"
         "height c = y + ch - y" "mode c = mode ?rgb"
      by blast
    have "\<not> out_of_memory lib (img_size c) (target_width, target_height)"
      using that(3) c by (simp add: img_size_def)
    from resize_size [OF t(1,2) that(2) t(4) this] obtain out where
      "resize lib c (target_width, target_height) = Inr out" "width out = target_width"
      "height out = target_height" "mode out = mode c"
      by blast
    with c rgb sc show ?thesis by (simp add: and_then_def)
  qed
  from b sizes errors total show ?thesis
    by - (rule exI [of _ x], rule exI [of _ y], rule exI [of _ "x + cw"], rule exI [of _ "y + ch"],
      blast)
qed

theorem smart_crop_exact_size_witness:
  "valid_dim (width photo) \<and> valid_dim (height photo) \<and> valid_dim 1080 \<and> valid_dim 1920
   \<and> smart_crop_box (width photo) (height photo) 1080 1920 = Inr (375, 0, 825, 800)
   \<and> width photo * height photo \<le> 2 * MAX_IMAGE_PIXELS \<and> 1080 \<le> max_line
   \<and> \<not> out_of_memory pil0 (825 - 375, 800 - 0) (1080, 1920)
   \<and> (\<exists>out. smart_crop pil0 photo 1080 1920 = Inr out
         \<and> width out = 1080 \<and> height out = 1920 \<and> mode out = RGB)
   \<and> smart_crop pil0 photo 536870911 1 = Inl MemoryError \<and> max_line < 536870911"
proof -
  have d: "valid_dim (width photo)" "valid_dim (height photo)" "valid_dim 1080" "valid_dim 1920"
    by (simp_all add: valid_dim_def photo_def)
  have s: "smart_crop_box (width photo) (height photo) 1080 1920 = Inr (375, 0, 825, 800)"
    by code_simp
  have a: "width photo * height photo \<le> 2 * MAX_IMAGE_PIXELS" "1080 \<le> max_line"
    "max_line < 536870911"
    by (simp_all add: photo_def MAX_IMAGE_PIXELS_def max_line_def INT_MAX_def)
  have m: "\<not> out_of_memory pil0 (825 - 375, 800 - 0) (1080, 1920)"
    by (simp add: pil0_def)
  have "case smart_crop pil0 photo 536870911 1 of Inl e \<Rightarrow> e = MemoryError | Inr out \<Rightarrow> False"
    by code_simp
  then have f: "smart_crop pil0 photo 536870911 1 = Inl MemoryError"
    by (cases "smart_crop pil0 photo 536870911 1") simp_all
  from smart_crop_exact_size [OF d, of pil0] obtain left upper right lower where
    b: "smart_crop_box (width photo) (height photo) 1080 1920 = Inr (left, upper, right, lower)"
    and t: "width photo * height photo \<le> 2 * MAX_IMAGE_PIXELS \<and> 1080 \<le> max_line
        \<and> \<not> out_of_memory pil0 (right - left, lower - upper) (1080, 1920)
        \<longrightarrow> (\<exists>out. smart_crop pil0 photo 1080 1920 = Inr out
               \<and> width out = 1080 \<and> height out = 1920 \<and> mode out = RGB)"
    by blast
  from b s have "left = 375" "upper = 0" "right = 825" "lower = 800" by simp_all
  with t a m have "\<exists>out. smart_crop pil0 photo 1080 1920 = Inr out
               \<and> width out = 1080 \<and> height out = 1920 \<and> mode out = RGB"
    by simp
  with d s a m f show ?thesis by (simp only: simp_thms)
qed

section \<open>Logo placement\<close>

lemma ImageProcessor_add_logo_pos_cases:
  "ImageProcessor_add_logo_pos w h lw lh c =
     (if c = ''top-right'' then (w - lw - 40, 40)
      else if c = ''top-left'' then (40, 40)
      else if c = ''bottom-right'' then (w - lw - 40, h - lh - 40)
      else if c = ''bottom-left'' then (40, h - lh - 40)
      else (w - lw - 40, 40))"
  by (simp add: ImageProcessor_add_logo_pos_def positions_def dict_get_def)

lemma add_image_logo_pos_eq:
  "add_image_logo_pos w h lw lh c = ImageProcessor_add_logo_pos w h lw lh c"
  by (simp add: add_image_logo_pos_def ImageProcessor_add_logo_pos_def)

lemma logo_geometry:
  assumes "0 \<le> lw" and "0 \<le> lh" and "lw < w - 80" and "lh < h - 80"
    and "pos = ImageProcessor_add_logo_pos w h lw lh corner"
    and "paste_box pos lw lh = (left, upper, right, lower)"
  shows "add_image_logo_pos w h lw lh corner = pos
    \<and> 0 \<le> left \<and> left \<le> right \<and> right \<le> w \<and> 0 \<le> upper \<and> upper \<le> lower \<and> lower \<le> h
    \<and> 40 \<le> left \<and> right \<le> w - 40 \<and> 40 \<le> upper \<and> lower \<le> h - 40
    \<and> (corner = ''top-left'' \<longrightarrow> left = 40 \<and> upper = 40)
    \<and> (corner = ''top-right'' \<longrightarrow> w - right = 40 \<and> upper = 40)
    \<and> (corner = ''bottom-left'' \<longrightarrow> left = 40 \<and> h - lower = 40)
    \<and> (corner = ''bottom-right'' \<longrightarrow> w - right = 40 \<and> h - lower = 40)
    \<and> (\<not> recognized_corner corner \<longrightarrow> pos = ImageProcessor_add_logo_pos w h lw lh ''top-right'')"
  using assms
  by (auto simp: add_image_logo_pos_eq ImageProcessor_add_logo_pos_cases paste_box_def
      recognized_corner_def split: if_splits)

text \<open>What both placement routines return: the base with the logo blended into its box.\<close>

lemma paste_then_convert:
  assumes "mode logo \<noteq> RGB" and "mode base = RGBA"
    and "paste_box pos (width logo) (height logo) = (left, upper, right, lower)"
  shows "\<exists>out. and_then (paste lib base logo pos) (\<lambda>result. Inr (convert lib RGB result)) = Inr out
      \<and> width out = width base \<and> height out = height base \<and> mode out = RGB
      \<and> px out = (\<lambda>x y. convert_px lib RGBA RGB
            (if left \<le> x \<and> x < right \<and> upper \<le> y \<and> y < lower
             then blend lib (px base x y) (px logo (x - left) (y - upper))
             else px base x y))"
proof -
  have b: "fst pos = left" "snd pos = upper" "fst pos + width logo = right"
    "snd pos + height logo = lower"
    using assms(3) by (simp_all add: paste_box_def)
  show ?thesis
    using assms(1,2) b by (auto simp: paste_def and_then_def convert_def fun_eq_iff)
qed

lemma ImageProcessor_add_logo_pasted:
  assumes "mode logo \<noteq> RGB"
    and "paste_box (ImageProcessor_add_logo_pos (width img) (height img) (width logo) (height logo)
           corner) (width logo) (height logo) = (left, upper, right, lower)"
  shows "\<exists>out. ImageProcessor_add_logo lib img logo corner = Inr out
      \<and> width out = width img \<and> height out = height img \<and> mode out = RGB
      \<and> px out = (\<lambda>x y. convert_px lib RGBA RGB
            (if left \<le> x \<and> x < right \<and> upper \<le> y \<and> y < lower
             then blend lib (px (convert lib RGBA img) x y) (px logo (x - left) (y - upper))
             else px (convert lib RGBA img) x y))"
proof -
  have m: "mode (convert lib RGBA img) = RGBA" by simp
  have "paste_box (ImageProcessor_add_logo_pos (width (convert lib RGBA img))
      (height (convert lib RGBA img)) (width logo) (height logo) corner) (width logo) (height logo)
      = (left, upper, right, lower)"
    using assms(2) by simp
  from paste_then_convert [OF assms(1) m this, of lib] show ?thesis
    by (simp add: ImageProcessor_add_logo_def Let_def)
qed

lemma add_image_logo_pasted:
  assumes "logo_layer lib files logo_path logo_width opacity remove_background = Inr logo"
    and "mode logo \<noteq> RGB"
    and "paste_box (ImageProcessor_add_logo_pos (width img) (height img) (width logo) (height logo)
           corner) (width logo) (height logo) = (left, upper, right, lower)"
  shows "\<exists>out. add_image_logo lib files img logo_path corner logo_width opacity remove_background
        = Inr out
      \<and> width out = width img \<and> height out = height img \<and> mode out = RGB
      \<and> px out = (\<lambda>x y. convert_px lib RGBA RGB
            (if left \<le> x \<and> x < right \<and> upper \<le> y \<and> y < lower
             then blend lib (px (convert lib RGBA img) x y) (px logo (x - left) (y - upper))
             else px (convert lib RGBA img) x y))"
proof -
  have i: "(if mode img \<noteq> RGBA then convert lib RGBA img else img) = convert lib RGBA img"
    by (simp add: convert_def)
  have m: "mode (convert lib RGBA img) = RGBA" by simp
  have "paste_box (add_image_logo_pos (width img) (height img) (width logo) (height logo) corner)
      (width logo) (height logo) = (left, upper, right, lower)"
    using assms(3) by (simp add: add_image_logo_pos_eq)
  from paste_then_convert [OF assms(2) m this, of lib] show ?thesis
    by (simp add: add_image_logo_def Let_def assms(1) i and_then_def [of "Inr logo"])
qed

text \<open>The size of the logo that \<open>add_image_logo\<close> pastes, from what the caller passes.\<close>

lemma logo_layer_size:
  assumes "logo_layer lib files logo_path logo_width opacity remove_background = Inr logo"
  shows "\<exists>prepared. prepare_logo lib files logo_path remove_background 240 = Inr prepared
      \<and> width logo = logo_width
      \<and> height logo = py_int (float_mul (of_int logo_width)
                          (float_div (of_int (height prepared)) (of_int (width prepared))))"
proof -
  from assms obtain prepared where
    p: "prepare_logo lib files logo_path remove_background 240 = Inr prepared"
    by (auto simp: logo_layer_def and_then_def split: sum.splits)
  let ?nh = "py_int (float_mul (of_int logo_width)
               (float_div (of_int (height prepared)) (of_int (width prepared))))"
  from assms p obtain resized where
    r: "resize lib prepared (logo_width, ?nh) = Inr resized" "logo = apply_opacity opacity resized"
    by (auto simp: logo_layer_def and_then_def Let_def split: sum.splits if_splits)
  from resize_Inr [OF r(1)] r(2) have "width logo = logo_width" "height logo = ?nh"
    by (simp_all add: apply_opacity_def)
  with p show ?thesis by blast
qed

lemma unknown_corner_position:
  "\<not> recognized_corner corner \<Longrightarrow>
   ImageProcessor_add_logo_pos w h lw lh corner = ImageProcessor_add_logo_pos w h lw lh ''top-right''"
  by (simp add: ImageProcessor_add_logo_pos_cases recognized_corner_def)

text \<open>
  Claim C7. Let the logo, as it is pasted, be narrower than the canvas width minus 80
  pixels and lower than the canvas height minus 80 pixels; it has an alpha channel.
  Then the box that the placement covers lies inside the canvas, at least 40 pixels
  from every edge and exactly 40 pixels from the two edges of the chosen corner, and
  an unrecognized corner value gives the placement of \<open>top-right\<close>.
  \<open>ImageProcessor.add_logo\<close> returns a canvas of the size of the base in which the
  pixels of that box are the logo blended over the base and every other pixel is the
  base's. \<open>add_image_logo\<close> pastes the logo file after it was prepared and resized to
  the width \<open>logo_width\<close> and the height \<open>int(logo_width * (height / width))\<close>; when that
  resized logo is the logo above, it returns the same canvas.
\<close>

theorem logo_placement_inside_canvas:
  assumes "0 \<le> width logo" and "0 \<le> height logo"
    and "width logo < width img - 80" and "height logo < height img - 80"
    and "mode logo \<noteq> RGB"
    and "pos = ImageProcessor_add_logo_pos (width img) (height img) (width logo) (height logo) corner"
    and "paste_box pos (width logo) (height logo) = (left, upper, right, lower)"
    and "pasted = (\<lambda>x y. convert_px lib RGBA RGB
            (if left \<le> x \<and> x < right \<and> upper \<le> y \<and> y < lower
             then blend lib (px (convert lib RGBA img) x y) (px logo (x - left) (y - upper))
             else px (convert lib RGBA img) x y))"
  shows "add_image_logo_pos (width img) (height img) (width logo) (height logo) corner = pos
    \<and> 0 \<le> left \<and> left \<le> right \<and> right \<le> width img
    \<and> 0 \<le> upper \<and> upper \<le> lower \<and> lower \<le> height img
    \<and> 40 \<le> left \<and> right \<le> width img - 40 \<and> 40 \<le> upper \<and> lower \<le> height img - 40
    \<and> (corner = ''top-left'' \<longrightarrow> left = 40 \<and> upper = 40)
    \<and> (corner = ''top-right'' \<longrightarrow> width img - right = 40 \<and> upper = 40)
    \<and> (corner = ''bottom-left'' \<longrightarrow> left = 40 \<and> height img - lower = 40)
    \<and> (corner = ''bottom-right'' \<longrightarrow> width img - right = 40 \<and> height img - lower = 40)
    \<and> (\<not> recognized_corner corner \<longrightarrow>
          pos = ImageProcessor_add_logo_pos (width img) (height img) (width logo) (height logo)
                  ''top-right''
        \<and> ImageProcessor_add_logo lib img logo corner
            = ImageProcessor_add_logo lib img logo ''top-right'')
    \<and> (\<exists>out. ImageProcessor_add_logo lib img logo corner = Inr out
          \<and> width out = width img \<and> height out = height img \<and> mode out = RGB
          \<and> px out = pasted)
    \<and> (\<forall>files logo_path logo_width opacity remove_background.
          logo_layer lib files logo_path logo_width opacity remove_background = Inr logo \<longrightarrow>
          (\<exists>prepared. prepare_logo lib files logo_path remove_background 240 = Inr prepared
              \<and> width logo = logo_width
              \<and> height logo = py_int (float_mul (of_int logo_width)
                                  (float_div (of_int (height prepared)) (of_int (width prepared)))))
        \<and> (\<exists>out. add_image_logo lib files img logo_path corner logo_width opacity
                    remove_background = Inr out
              \<and> width out = width img \<and> height out = height img \<and> mode out = RGB
              \<and> px out = pasted)
        \<and> (\<not> recognized_corner corner \<longrightarrow>
              add_image_logo lib files img logo_path corner logo_width opacity remove_background
              = add_image_logo lib files img logo_path ''top-right'' logo_width opacity
                  remove_background))"
proof -
  have geometry: "add_image_logo_pos (width img) (height img) (width logo) (height logo) corner = pos
    \<and> 0 \<le> left \<and> left \<le> right \<and> right \<le> width img
    \<and> 0 \<le> upper \<and> upper \<le> lower \<and> lower \<le> height img
    \<and> 40 \<le> left \<and> right \<le> width img - 40 \<and> 40 \<le> upper \<and> lower \<le> height img - 40
    \<and> (corner = ''top-left'' \<longrightarrow> left = 40 \<and> upper = 40)
    \<and> (corner = ''top-right'' \<longrightarrow> width img - right = 40 \<and> upper = 40)
    \<and> (corner = ''bottom-left'' \<longrightarrow> left = 40 \<and> height img - lower = 40)
    \<and> (corner = ''bottom-right'' \<longrightarrow> width img - right = 40 \<and> height img - lower = 40)
    \<and> (\<not> recognized_corner corner \<longrightarrow>
          pos = ImageProcessor_add_logo_pos (width img) (height img) (width logo) (height logo)
                  ''top-right'')"
    using assms(1-4,6,7) by (rule logo_geometry)
  have box: "paste_box (ImageProcessor_add_logo_pos (width img) (height img) (width logo)
      (height logo) corner) (width logo) (height logo) = (left, upper, right, lower)"
    using assms(6,7) by simp
  have same: "ImageProcessor_add_logo lib img logo corner
      = ImageProcessor_add_logo lib img logo ''top-right''"
    if "\<not> recognized_corner corner"
    using unknown_corner_position [OF that]
    by (simp add: ImageProcessor_add_logo_def Let_def)
  have same': "add_image_logo lib files img logo_path corner logo_width opacity remove_background
      = add_image_logo lib files img logo_path ''top-right'' logo_width opacity remove_background"
    if "\<not> recognized_corner corner" for files logo_path logo_width opacity remove_background
    using unknown_corner_position [OF that]
    by (simp add: add_image_logo_def Let_def add_image_logo_pos_eq)
  have first: "\<exists>out. ImageProcessor_add_logo lib img logo corner = Inr out
          \<and> width out = width img \<and> height out = height img \<and> mode out = RGB
          \<and> px out = pasted"
    unfolding assms(8) using assms(5) box by (rule ImageProcessor_add_logo_pasted)
  have second: "(\<exists>prepared. prepare_logo lib files logo_path remove_background 240 = Inr prepared
              \<and> width logo = logo_width
              \<and> height logo = py_int (float_mul (of_int logo_width)
                                  (float_div (of_int (height prepared)) (of_int (width prepared)))))
        \<and> (\<exists>out. add_image_logo lib files img logo_path corner logo_width opacity
                    remove_background = Inr out
              \<and> width out = width img \<and> height out = height img \<and> mode out = RGB
              \<and> px out = pasted)"
    if "logo_layer lib files logo_path logo_width opacity remove_background = Inr logo"
    for files logo_path logo_width opacity remove_background
    unfolding assms(8)
    using logo_layer_size [OF that] add_image_logo_pasted [OF that assms(5) box] by (rule conjI)
  from geometry have g1: "add_image_logo_pos (width img) (height img) (width logo) (height logo) corner = pos
    \<and> 0 \<le> left \<and> left \<le> right \<and> right \<le> width img
    \<and> 0 \<le> upper \<and> upper \<le> lower \<and> lower \<le> height img
    \<and> 40 \<le> left \<and> right \<le> width img - 40 \<and> 40 \<le> upper \<and> lower \<le> height img - 40
    \<and> (corner = ''top-left'' \<longrightarrow> left = 40 \<and> upper = 40)
    \<and> (corner = ''top-right'' \<longrightarrow> width img - right = 40 \<and> upper = 40)
    \<and> (corner = ''bottom-left'' \<longrightarrow> left = 40 \<and> height img - lower = 40)
    \<and> (corner = ''bottom-right'' \<longrightarrow> width img - right = 40 \<and> height img - lower = 40)"
    and g2: "\<not> recognized_corner corner \<longrightarrow>
          pos = ImageProcessor_add_logo_pos (width img) (height img) (width logo) (height logo)
                  ''top-right''"
    by blast+
  from g2 same have g3: "\<not> recognized_corner corner \<longrightarrow>
          pos = ImageProcessor_add_logo_pos (width img) (height img) (width logo) (height logo)
                  ''top-right''
        \<and> ImageProcessor_add_logo lib img logo corner
            = ImageProcessor_add_logo lib img logo ''top-right''"
    by blast
  from second same' have g4: "\<forall>files logo_path logo_width opacity remove_background.
          logo_layer lib files logo_path logo_width opacity remove_background = Inr logo \<longrightarrow>
          (\<exists>prepared. prepare_logo lib files logo_path remove_background 240 = Inr prepared
              \<and> width logo = logo_width
              \<and> height logo = py_int (float_mul (of_int logo_width)
                                  (float_div (of_int (height prepared)) (of_int (width prepared)))))
        \<and> (\<exists>out. add_image_logo lib files img logo_path corner logo_width opacity
                    remove_background = Inr out
              \<and> width out = width img \<and> height out = height img \<and> mode out = RGB
              \<and> px out = pasted)
        \<and> (\<not> recognized_corner corner \<longrightarrow>
              add_image_logo lib files img logo_path corner logo_width opacity remove_background
              = add_image_logo lib files img logo_path ''top-right'' logo_width opacity
                  remove_background)"
    by (intro allI impI conjI) blast+
  from g1 g3 first g4 show ?thesis by (elim conjE) (intro conjI; assumption)
qed

theorem logo_placement_inside_canvas_witness:
  "\<exists>logo. logo_layer pil0 Map.empty (FileObj ''LOGO'') 150 (float_literal (85/100)) True = Inr logo
     \<and> 0 \<le> width logo \<and> 0 \<le> height logo
     \<and> width logo < width photo - 80 \<and> height logo < height photo - 80
     \<and> mode logo \<noteq> RGB \<and> width logo = 150 \<and> height logo = 150
     \<and> ImageProcessor_add_logo_pos (width photo) (height photo) (width logo) (height logo)
         ''bottom-right'' = (1010, 610)
     \<and> paste_box (1010, 610) (width logo) (height logo) = (1010, 610, 1160, 760)
     \<and> (\<exists>out. ImageProcessor_add_logo pil0 photo logo ''bottom-right'' = Inr out
           \<and> width out = width photo \<and> height out = height photo
           \<and> px out 1100 700 = (227, 16, 20, 255) \<and> px out 100 100 = (73, 109, 137, 255))
     \<and> (\<exists>out. add_image_logo pil0 Map.empty photo (FileObj ''LOGO'') ''bottom-right'' 150
                 (float_literal (85/100)) True = Inr out
           \<and> width out = width photo \<and> height out = height photo
           \<and> px out 1100 700 = (227, 16, 20, 255) \<and> px out 100 100 = (73, 109, 137, 255))
     \<and> \<not> recognized_corner ''middle''
     \<and> ImageProcessor_add_logo pil0 photo logo ''middle''
         = ImageProcessor_add_logo pil0 photo logo ''top-right''"
proof -
  define L where
    "L = projr (logo_layer pil0 Map.empty (FileObj ''LOGO'') 150 (float_literal (85/100)) True)"
  have "case logo_layer pil0 Map.empty (FileObj ''LOGO'') 150 (float_literal (85/100)) True of
          Inl e \<Rightarrow> False | Inr l \<Rightarrow> True"
    by code_simp
  then have ll: "logo_layer pil0 Map.empty (FileObj ''LOGO'') 150 (float_literal (85/100)) True = Inr L"
    by (cases "logo_layer pil0 Map.empty (FileObj ''LOGO'') 150 (float_literal (85/100)) True")
      (simp_all add: L_def)
  have w: "width L = 150" unfolding L_def by code_simp
  have h: "height L = 150" unfolding L_def by code_simp
  have "mode L = RGBA" unfolding L_def by code_simp
  then have m: "mode L \<noteq> RGB" by simp
  have lp: "px L 90 90 = (255, 0, 0, 216)" unfolding L_def by code_simp
  have s: "0 \<le> width L" "0 \<le> height L" "width L < width photo - 80" "height L < height photo - 80"
    by (simp_all add: w h photo_def)
  have pos: "(1010, 610) = ImageProcessor_add_logo_pos (width photo) (height photo)
      (width L) (height L) ''bottom-right''"
    by (simp add: ImageProcessor_add_logo_pos_cases w h photo_def)
  have box: "paste_box (1010, 610) (width L) (height L) = (1010, 610, 1160, 760)"
    by (simp add: paste_box_def w h)
  have unk: "\<not> recognized_corner ''middle''"
    by (simp add: recognized_corner_def)
  have pos': "(1010, 40) = ImageProcessor_add_logo_pos (width photo) (height photo)
      (width L) (height L) ''middle''"
    by (simp add: ImageProcessor_add_logo_pos_cases w h photo_def)
  have box': "paste_box (1010, 40) (width L) (height L) = (1010, 40, 1160, 190)"
    by (simp add: paste_box_def w h)
  define pasted where "pasted = (\<lambda>x y. convert_px pil0 RGBA RGB
            (if 1010 \<le> x \<and> x < 1160 \<and> 610 \<le> y \<and> y < 760
             then blend pil0 (px (convert pil0 RGBA photo) x y) (px L (x - 1010) (y - 610))
             else px (convert pil0 RGBA photo) x y))"
  define pasted' where "pasted' = (\<lambda>x y. convert_px pil0 RGBA RGB
            (if 1010 \<le> x \<and> x < 1160 \<and> 40 \<le> y \<and> y < 190
             then blend pil0 (px (convert pil0 RGBA photo) x y) (px L (x - 1010) (y - 40))
             else px (convert pil0 RGBA photo) x y))"
  note a = logo_placement_inside_canvas [OF s m pos box pasted_def]
  note b = logo_placement_inside_canvas [OF s m pos' box' pasted'_def]
  have v1: "pasted 1100 700 = (227, 16, 20, 255)"
    by (simp add: pasted_def lp pil0_def over_def convert_def photo_def)
  have v2: "pasted 100 100 = (73, 109, 137, 255)"
    by (simp add: pasted_def pil0_def convert_def photo_def)
  have "\<exists>out. ImageProcessor_add_logo pil0 photo L ''bottom-right'' = Inr out
          \<and> width out = width photo \<and> height out = height photo \<and> mode out = RGB
          \<and> px out = pasted"
    using a by (elim conjE)
  then have first: "\<exists>out. ImageProcessor_add_logo pil0 photo L ''bottom-right'' = Inr out
           \<and> width out = width photo \<and> height out = height photo
           \<and> px out 1100 700 = (227, 16, 20, 255) \<and> px out 100 100 = (73, 109, 137, 255)"
    using v1 v2 by auto
  have "\<forall>files logo_path logo_width opacity remove_background.
          logo_layer pil0 files logo_path logo_width opacity remove_background = Inr L \<longrightarrow>
          (\<exists>prepared. prepare_logo pil0 files logo_path remove_background 240 = Inr prepared
              \<and> width L = logo_width
              \<and> height L = py_int (float_mul (of_int logo_width)
                                  (float_div (of_int (height prepared)) (of_int (width prepared)))))
        \<and> (\<exists>out. add_image_logo pil0 files photo logo_path ''bottom-right'' logo_width opacity
                    remove_background = Inr out
              \<and> width out = width photo \<and> height out = height photo \<and> mode out = RGB
              \<and> px out = pasted)
        \<and> (\<not> recognized_corner ''bottom-right'' \<longrightarrow>
              add_image_logo pil0 files photo logo_path ''bottom-right'' logo_width opacity
                remove_background
              = add_image_logo pil0 files photo logo_path ''top-right'' logo_width opacity
                  remove_background)"
    using a by (elim conjE)
  from this [rule_format, OF ll]
  have "\<exists>out. add_image_logo pil0 Map.empty photo (FileObj ''LOGO'') ''bottom-right'' 150
                 (float_literal (85/100)) True = Inr out
              \<and> width out = width photo \<and> height out = height photo \<and> mode out = RGB
              \<and> px out = pasted"
    by (elim conjE)
  then have second: "\<exists>out. add_image_logo pil0 Map.empty photo (FileObj ''LOGO'') ''bottom-right'' 150
                 (float_literal (85/100)) True = Inr out
           \<and> width out = width photo \<and> height out = height photo
           \<and> px out 1100 700 = (227, 16, 20, 255) \<and> px out 100 100 = (73, 109, 137, 255)"
    using v1 v2 by auto
  have "\<not> recognized_corner ''middle'' \<longrightarrow>
          (1010, 40) = ImageProcessor_add_logo_pos (width photo) (height photo) (width L)
                  (height L) ''top-right''
        \<and> ImageProcessor_add_logo pil0 photo L ''middle''
            = ImageProcessor_add_logo pil0 photo L ''top-right''"
    using b by (elim conjE)
  with unk have third: "ImageProcessor_add_logo pil0 photo L ''middle''
      = ImageProcessor_add_logo pil0 photo L ''top-right''"
    by (elim impE conjE) assumption+
  have p1: "ImageProcessor_add_logo_pos (width photo) (height photo) (width L) (height L)
         ''bottom-right'' = (1010, 610)"
    using pos by (rule sym)
  show ?thesis
    by (rule exI [of _ L], intro conjI) (fact ll s m w h p1 box first second unk third)+
qed

section \<open>Background removal\<close>

lemma alpha_mask_pixel:
  "alpha (mask_pixel t p) = (if white_mask t p then 0 else alpha p)"
  by (cases p) (simp add: mask_pixel_def alpha_def white_mask_def)

lemma rgb_mask_pixel: "rgb (mask_pixel t p) = rgb p"
  by (cases p) (simp add: mask_pixel_def rgb_def)

lemma px_putalpha:
  "alpha (px (putalpha img band) x y) = band x y" "rgb (px (putalpha img band) x y) = rgb (px img x y)"
  by (simp_all add: putalpha_def alpha_def rgb_def split: prod.splits)

lemma putalpha_size [simp]:
  "mode (putalpha img band) = mode img" "width (putalpha img band) = width img"
  "height (putalpha img band) = height img"
  by (simp_all add: putalpha_def)

text \<open>
  Claim C4, as the code has it. \<open>remove_white_background\<close> keeps every colour and
  computes the masked alpha channel: 0 where red, green and blue are all above the
  threshold, the pixel's own alpha elsewhere. Without feathering (\<open>feather \<le> 0\<close>)
  that is the alpha channel of the result; with a positive feather, which is the default,
  the result's alpha channel is the Gaussian blur of the masked channel.
\<close>

theorem remove_white_background_masks_then_blurs:
  "(let rgba = (if mode img \<noteq> RGBA then convert lib RGBA img else img);
        masked = (\<lambda>x y. if white_mask threshold (px rgba x y) then 0 else alpha (px rgba x y));
        out = remove_white_background lib img threshold feather
    in mode out = RGBA \<and> width out = width img \<and> height out = height img
       \<and> (\<forall>x y. rgb (px out x y) = rgb (px rgba x y))
       \<and> (\<forall>x y. alpha (px out x y) =
             (if 0 < feather then gaussian_blur lib feather (width img, height img) masked x y
              else masked x y)))"
proof -
  let ?rgba = "if mode img \<noteq> RGBA then convert lib RGBA img else img"
  have m: "mode ?rgba = RGBA" "width ?rgba = width img" "height ?rgba = height img"
    by simp_all
  show ?thesis
    unfolding Let_def remove_white_background_def
    using m by (simp add: px_putalpha alpha_mask_pixel rgb_mask_pixel img_size_def)
qed

text \<open>
  The claim as stated fails with the default feather: in the row \<open>strip3\<close>, with
  threshold 240 and feather 2, the black pixel does not keep its alpha of 255 and the
  white pixel beside it does not end with alpha 0 (here with the three-tap mean as the
  blur; any filter that is not the identity on this row gives the same verdict).
\<close>

theorem remove_white_background_feather_counterexample:
  "\<not> white_mask 240 (px strip3 1 0) \<and> alpha (px strip3 1 0) = 255
   \<and> alpha (px (remove_white_background pil0 strip3 240 2) 1 0) = 85
   \<and> white_mask 240 (px strip3 0 0)
   \<and> alpha (px (remove_white_background pil0 strip3 240 2) 0 0) = 85"
  by (simp add: remove_white_background_def strip3_def pil0_def white_mask_def alpha_def
      mask_pixel_def putalpha_def img_size_def Let_def)

section \<open>Opacity scaling\<close>

lemma clip8_id: "0 \<le> v \<Longrightarrow> v \<le> 255 \<Longrightarrow> clip8 v = v"
  by (simp add: clip8_def)

lemma logo_layer_Inr:
  assumes "logo_layer lib files src logo_width opacity remove_background = Inr layer"
  shows "\<exists>prepared resized.
           prepare_logo lib files src remove_background 240 = Inr prepared
         \<and> resize lib prepared (logo_width, height resized) = Inr resized
         \<and> layer = apply_opacity opacity resized"
proof -
  from assms obtain prepared where
    p: "prepare_logo lib files src remove_background 240 = Inr prepared"
    by (auto simp: logo_layer_def and_then_def split: sum.splits)
  let ?nh = "py_int (float_mul (of_int logo_width)
               (float_div (of_int (height prepared)) (of_int (width prepared))))"
  from assms p obtain resized where
    r: "resize lib prepared (logo_width, ?nh) = Inr resized" "layer = apply_opacity opacity resized"
    by (auto simp: logo_layer_def and_then_def Let_def split: sum.splits if_splits)
  from r(1) have "height resized = ?nh"
    by (auto simp: resize_def img_size_def split: if_splits)
  with r(1) have "resize lib prepared (logo_width, height resized) = Inr resized" by simp
  with p r(2) show ?thesis by blast
qed

lemma float_mul_le:
  assumes "0 \<le> opacity" and "opacity \<le> 1" and "0 \<le> a" and "a \<le> 255"
  shows "0 \<le> float_mul (of_int a) opacity" and "float_mul (of_int a) opacity \<le> of_int a"
proof -
  have "(0::rat) \<le> of_int a * opacity" using assms by simp
  then show "0 \<le> float_mul (of_int a) opacity"
    unfolding float_mul_def by (rule float_round_nonneg)
  have "of_int a * opacity \<le> of_int a * 1"
    using assms by (intro mult_left_mono) simp_all
  then have "float_round (of_int a * opacity) \<le> float_round (of_int a)"
    by (intro float_round_mono) simp
  moreover have "float_round (of_int a) = of_int a"
    using assms by (intro float_round_of_int) simp
  ultimately show "float_mul (of_int a) opacity \<le> of_int a"
    by (simp add: float_mul_def)
qed

text \<open>
  Claim C5, as the code has it. For an opacity factor in \<open>[0, 1]\<close> and an alpha sample
  \<open>a\<close> in \<open>0..255\<close>, the opacity step of \<open>add_image_logo\<close> gives
  \<open>int(a * opacity)\<close>: the float product truncated, a value from 0 to \<open>a\<close> that is at
  most the product and less than one below it. The step is applied to the alpha channel
  of the logo after it was prepared (background removed and feathered) and resized;
  the colours stay.
\<close>

theorem opacity_scaling_truncates:
  assumes "0 \<le> opacity" and "opacity \<le> 1" and "0 \<le> a" and "a \<le> 255"
  shows "opacity_point opacity a = \<lfloor>float_mul (of_int a) opacity\<rfloor>
    \<and> 0 \<le> opacity_point opacity a \<and> opacity_point opacity a \<le> a
    \<and> of_int (opacity_point opacity a) \<le> float_mul (of_int a) opacity
    \<and> float_mul (of_int a) opacity < of_int (opacity_point opacity a) + 1
    \<and> \<bar>float_mul (of_int a) opacity - of_int a * opacity\<bar> \<le> of_int a * opacity / 2 ^ 53
    \<and> (\<forall>layer. logo_layer lib files src logo_width opacity remove_background = Inr layer \<longrightarrow>
          (\<exists>prepared resized.
              prepare_logo lib files src remove_background 240 = Inr prepared
            \<and> resize lib prepared (logo_width, height resized) = Inr resized
            \<and> (\<forall>x y. alpha (px layer x y) = opacity_point opacity (alpha (px resized x y))
                     \<and> rgb (px layer x y) = rgb (px resized x y))))"
proof -
  note b = float_mul_le [OF assms]
  let ?p = "float_mul (of_int a) opacity"
  have fl: "0 \<le> \<lfloor>?p\<rfloor>" "\<lfloor>?p\<rfloor> \<le> a"
    using b by (simp_all add: floor_le_iff)
  then have "\<lfloor>?p\<rfloor> \<le> 255" using assms by linarith
  with fl have eq: "opacity_point opacity a = \<lfloor>?p\<rfloor>"
    using b by (simp add: opacity_point_def py_int_def clip8_id)
  have err: "\<bar>?p - of_int a * opacity\<bar> \<le> of_int a * opacity / 2 ^ 53"
  proof -
    have "(0::rat) \<le> of_int a * opacity" using assms by simp
    then show ?thesis
      using float_round_error [of "of_int a * opacity"] by (simp add: float_mul_def)
  qed
  have layer: "\<exists>prepared resized.
              prepare_logo lib files src remove_background 240 = Inr prepared
            \<and> resize lib prepared (logo_width, height resized) = Inr resized
            \<and> (\<forall>x y. alpha (px layer x y) = opacity_point opacity (alpha (px resized x y))
                     \<and> rgb (px layer x y) = rgb (px resized x y))"
    if "logo_layer lib files src logo_width opacity remove_background = Inr layer" for layer
  proof -
    from logo_layer_Inr [OF that] obtain prepared resized where
      pr: "prepare_logo lib files src remove_background 240 = Inr prepared"
          "resize lib prepared (logo_width, height resized) = Inr resized"
          "layer = apply_opacity opacity resized"
      by blast
    have "alpha (px layer x y) = opacity_point opacity (alpha (px resized x y))
        \<and> rgb (px layer x y) = rgb (px resized x y)" for x y
      by (simp add: pr(3) apply_opacity_def alpha_def rgb_def split: prod.splits)
    with pr show ?thesis by blast
  qed
  show ?thesis
    using eq fl err layer by (simp add: floor_le_iff) linarith
qed

theorem opacity_scaling_truncates_witness:
  "0 \<le> float_literal (85/100) \<and> float_literal (85/100) \<le> 1
   \<and> opacity_point (float_literal (85/100)) 255 = \<lfloor>float_mul (of_int 255) (float_literal (85/100))\<rfloor>
   \<and> opacity_point (float_literal (85/100)) 255 = 216
   \<and> (\<exists>layer prepared resized.
         logo_layer pil0 Map.empty (FileObj ''LOGO'') 150 (float_literal (85/100)) True = Inr layer
       \<and> prepare_logo pil0 Map.empty (FileObj ''LOGO'') True 240 = Inr prepared
       \<and> resize pil0 prepared (150, height resized) = Inr resized
       \<and> alpha (px layer 75 75)
           = opacity_point (float_literal (85/100)) (alpha (px resized 75 75)))"
proof -
  have r: "0 \<le> float_literal (85/100)" "float_literal (85/100) \<le> 1"
    by code_simp+
  have v: "opacity_point (float_literal (85/100)) 255 = 216"
    by code_simp
  have "case logo_layer pil0 Map.empty (FileObj ''LOGO'') 150 (float_literal (85/100)) True of
          Inl e \<Rightarrow> False | Inr layer \<Rightarrow> True"
    by code_simp
  then obtain layer where
    l: "logo_layer pil0 Map.empty (FileObj ''LOGO'') 150 (float_literal (85/100)) True = Inr layer"
    by (auto split: sum.splits)
  show ?thesis
    using opacity_scaling_truncates [OF r, of 255 pil0 Map.empty "FileObj ''LOGO''" 150 True] l v r
    by auto
qed

text \<open>
  The claim as stated fails: with the default opacity \<open>0.85\<close> a fully opaque sample
  becomes 216, and the nearest channel value to \<open>255 * 0.85 = 216.75\<close> is 217.
\<close>

theorem opacity_scaling_nearest_counterexample:
  "0 \<le> float_literal (85/100) \<and> float_literal (85/100) \<le> 1
   \<and> opacity_point (float_literal (85/100)) 255 = 216
   \<and> nearest_channel_value (of_int 255 * float_literal (85/100)) = 217
   \<and> nearest_channel_value (float_mul (of_int 255) (float_literal (85/100))) = 217"
  by code_simp

section \<open>Text layout\<close>

lemma float_literal_15: "float_literal (15/100) = 5404319552844595 / 36028797018963968"
  by code_simp

lemma float_literal_85: "float_literal (85/100) = 7656119366529843 / 9007199254740992"
  by code_simp

lemma float_round_error_nonneg:
  assumes "0 \<le> d"
  shows "float_round d - d \<le> d / 2 ^ 53" and "d - float_round d \<le> d / 2 ^ 53"
proof -
  have "\<bar>d\<bar> = d" using assms by simp
  with float_round_error [of d] have e: "\<bar>float_round d - d\<bar> \<le> d / 2 ^ 53"
    by (simp only:)
  show "float_round d - d \<le> d / 2 ^ 53" using e by linarith
  show "d - float_round d \<le> d / 2 ^ 53" using e by linarith
qed

lemma top_error:
  assumes "0 \<le> h"
  shows "\<bar>float_mul (of_int h) (float_literal (15/100)) - 15/100 * of_int h\<bar> \<le> of_int h / 2 ^ 53"
proof -
  define x :: rat where "x = of_int h"
  define d where "d = x * (5404319552844595 / 36028797018963968)"
  define y where "y = float_round d"
  have x: "0 \<le> x" using assms by (simp add: x_def)
  then have d: "0 \<le> d" by (simp add: d_def)
  note e = float_round_error_nonneg [OF d, folded y_def]
  have dx: "d \<le> 15/100 * x" "15/100 * x - d \<le> x / 2 ^ 54"
    using x by (simp_all add: d_def)
  have "d / 2 ^ 53 \<le> (15/100 * x) / 2 ^ 53" using dx(1) by (simp add: divide_right_mono)
  also have "\<dots> \<le> x / 2 ^ 54" using x by simp
  finally have dd: "d / 2 ^ 53 \<le> x / 2 ^ 54" .
  have "x / 2 ^ 54 + x / 2 ^ 54 = x / 2 ^ 53" by simp
  with e dx dd have "\<bar>y - 15/100 * x\<bar> \<le> x / 2 ^ 53" by linarith
  then show ?thesis
    unfolding float_mul_def float_literal_15 x_def y_def d_def .
qed

lemma bottom_error:
  assumes "0 \<le> h"
  shows "\<bar>float_sub (float_mul (of_int h) (float_literal (85/100))) (of_int t)
          - (85/100 * of_int h - of_int t)\<bar> \<le> (4 * of_int h + \<bar>of_int t\<bar>) / 2 ^ 53"
proof -
  define x :: rat where "x = of_int h"
  define T :: rat where "T = of_int t"
  define d where "d = x * (7656119366529843 / 9007199254740992)"
  define u where "u = float_round d"
  define y where "y = float_round (u - T)"
  have x: "0 \<le> x" using assms by (simp add: x_def)
  then have d: "0 \<le> d" by (simp add: d_def)
  note e1 = float_round_error_nonneg [OF d, folded u_def]
  have e2: "\<bar>y - (u - T)\<bar> \<le> \<bar>u - T\<bar> / 2 ^ 53"
    unfolding y_def by (rule float_round_error)
  have dx: "d \<le> 85/100 * x" "85/100 * x - d \<le> x / 2 ^ 53"
    using x by (simp_all add: d_def)
  have "d / 2 ^ 53 \<le> x / 2 ^ 53" using dx(1) x by (simp add: divide_right_mono)
  with e1 dx have u1: "\<bar>u - 85/100 * x\<bar> \<le> 2 * (x / 2 ^ 53)" by linarith
  have "x / 2 ^ 53 \<le> x / 20" using x by simp
  with u1 x have u2: "\<bar>u\<bar> \<le> x" by linarith
  have "\<bar>u - T\<bar> \<le> x + \<bar>T\<bar>" using u2 by linarith
  then have "\<bar>u - T\<bar> / 2 ^ 53 \<le> (x + \<bar>T\<bar>) / 2 ^ 53" by (simp add: divide_right_mono)
  with e2 have e3: "\<bar>y - (u - T)\<bar> \<le> (x + \<bar>T\<bar>) / 2 ^ 53" by linarith
  have "\<bar>y - (85/100 * x - T)\<bar> \<le> \<bar>y - (u - T)\<bar> + \<bar>u - 85/100 * x\<bar>" by linarith
  also have "\<dots> \<le> (x + \<bar>T\<bar>) / 2 ^ 53 + 2 * (x / 2 ^ 53)" using e3 u1 by linarith
  also have "\<dots> \<le> (4 * x + \<bar>T\<bar>) / 2 ^ 53" using x by (simp add: field_simps)
  finally show ?thesis
    unfolding float_sub_def float_mul_def float_literal_85 x_def y_def u_def T_def d_def .
qed


lemma text_layout_fields:
  assumes "textbbox lib font_title title = (t0, t1, t2, t3)"
    and "textbbox lib font_cta cta = (c0, c1, c2, c3)"
  shows "title_width (text_layout lib font_title font_cta h title cta position) = t2 - t0"
    and "title_height (text_layout lib font_title font_cta h title cta position) = t3 - t1"
    and "total_text_height (text_layout lib font_title font_cta h title cta position)
           = (t3 - t1) + (if cta \<noteq> [] then (c3 - c1) + 30 else 0) + 40"
    and "y_start (text_layout lib font_title font_cta h title cta position) =
          (if position = ''top'' then PyFloat (float_mul (of_int h) (float_literal (15/100)))
           else if position = ''bottom'' then
             PyFloat (float_sub (float_mul (of_int h) (float_literal (85/100)))
               (of_int ((t3 - t1) + (if cta \<noteq> [] then (c3 - c1) + 30 else 0) + 40)))
           else PyInt ((h - ((t3 - t1) + (if cta \<noteq> [] then (c3 - c1) + 30 else 0) + 40)) div 2))"
  using assms by (simp_all add: text_layout_def Let_def)

text \<open>
  Claim C6. The layout of \<open>add_text_overlay\<close> for a canvas of height \<open>h\<close>: the total
  text height is the title height, plus the CTA height and a 30 pixel gap when a CTA is
  present, plus 40. The vertical start is 15% of the canvas height for \<open>top\<close>, 85% of
  the canvas height minus the total text height for \<open>bottom\<close> (both as float
  expressions, within float rounding of the exact values), and
  \<open>(h - total_text_height) // 2\<close> for \<open>center\<close>; every other anchor value gives
  the layout of \<open>center\<close>.
\<close>

theorem text_layout_as_specified:
  assumes "valid_dim h"
    and "textbbox lib font_title title = (t0, t1, t2, t3)"
    and "textbbox lib font_cta cta = (c0, c1, c2, c3)"
    and "lay = text_layout lib font_title font_cta h title cta position"
    and "T = total_text_height lay"
  shows "title_height lay = t3 - t1
    \<and> T = (t3 - t1) + (if cta \<noteq> [] then (c3 - c1) + 30 else 0) + 40
    \<and> (position = ''top'' \<longrightarrow>
          y_start lay = PyFloat (float_mul (of_int h) (float_literal (15/100)))
        \<and> \<bar>num_val (y_start lay) - 15/100 * of_int h\<bar> \<le> of_int h / 2 ^ 53)
    \<and> (position = ''bottom'' \<longrightarrow>
          y_start lay = PyFloat (float_sub (float_mul (of_int h) (float_literal (85/100))) (of_int T))
        \<and> \<bar>num_val (y_start lay) - (85/100 * of_int h - of_int T)\<bar>
             \<le> (4 * of_int h + \<bar>of_int T\<bar>) / 2 ^ 53)
    \<and> (position = ''center'' \<longrightarrow> y_start lay = PyInt ((h - T) div 2))
    \<and> (position \<noteq> ''top'' \<and> position \<noteq> ''bottom'' \<longrightarrow>
          lay = text_layout lib font_title font_cta h title cta ''center''
        \<and> y_start lay = PyInt ((h - T) div 2)
        \<and> 2 * ((h - T) div 2) \<le> h - T \<and> h - T \<le> 2 * ((h - T) div 2) + 1)"
proof -
  note f = text_layout_fields [OF assms(2,3), of h position]
  have h: "0 \<le> h" using assms(1) by (simp add: valid_dim_def)
  have T: "T = (t3 - t1) + (if cta \<noteq> [] then (c3 - c1) + 30 else 0) + 40"
    using f(3) assms(4,5) by simp
  have th: "title_height lay = t3 - t1" using f(2) assms(4) by simp
  have ys: "y_start lay =
          (if position = ''top'' then PyFloat (float_mul (of_int h) (float_literal (15/100)))
           else if position = ''bottom'' then
             PyFloat (float_sub (float_mul (of_int h) (float_literal (85/100))) (of_int T))
           else PyInt ((h - T) div 2))"
    using f(4) assms(4) T by simp
  have top: "y_start lay = PyFloat (float_mul (of_int h) (float_literal (15/100)))
        \<and> \<bar>num_val (y_start lay) - 15/100 * of_int h\<bar> \<le> of_int h / 2 ^ 53"
    if "position = ''top''"
    using that ys top_error [OF h] by simp
  have bottom: "y_start lay = PyFloat (float_sub (float_mul (of_int h) (float_literal (85/100))) (of_int T))
        \<and> \<bar>num_val (y_start lay) - (85/100 * of_int h - of_int T)\<bar>
             \<le> (4 * of_int h + \<bar>of_int T\<bar>) / 2 ^ 53"
    if "position = ''bottom''"
    using that ys bottom_error [OF h, of T] by simp
  have center: "y_start lay = PyInt ((h - T) div 2)" if "position = ''center''"
    using that ys by simp
  have other: "lay = text_layout lib font_title font_cta h title cta ''center''
        \<and> y_start lay = PyInt ((h - T) div 2)
        \<and> 2 * ((h - T) div 2) \<le> h - T \<and> h - T \<le> 2 * ((h - T) div 2) + 1"
    if "position \<noteq> ''top'' \<and> position \<noteq> ''bottom''"
  proof -
    have "lay = text_layout lib font_title font_cta h title cta ''center''"
      using that assms(4) by (simp add: text_layout_def)
    moreover have "y_start lay = PyInt ((h - T) div 2)" using that ys by simp
    moreover have "2 * ((h - T) div 2) \<le> h - T \<and> h - T \<le> 2 * ((h - T) div 2) + 1"
      by presburger
    ultimately show ?thesis by blast
  qed
  show ?thesis
    using th T top bottom center other by blast
qed

theorem text_layout_as_specified_witness:
  "valid_dim 675
   \<and> textbbox pil0 (load_default pil0) ''Sale 50%'' = (0, 0, 48, 11)
   \<and> textbbox pil0 (load_default pil0) ''Shop'' = (0, 0, 24, 11)
   \<and> total_text_height
        (text_layout pil0 (load_default pil0) (load_default pil0) 675 ''Sale 50%'' ''Shop'' ''top'') = 92
   \<and> y_start (text_layout pil0 (load_default pil0) (load_default pil0) 675 ''Sale 50%'' ''Shop'' ''top'')
        = PyFloat (405 / 4)
   \<and> y_start (text_layout pil0 (load_default pil0) (load_default pil0) 675 ''Sale 50%'' ''Shop'' ''bottom'')
        = PyFloat (1927 / 4)
   \<and> y_start (text_layout pil0 (load_default pil0) (load_default pil0) 675 ''Sale 50%'' ''Shop'' ''center'')
        = PyInt 291
   \<and> text_layout pil0 (load_default pil0) (load_default pil0) 675 ''Sale 50%'' ''Shop'' ''middle''
        = text_layout pil0 (load_default pil0) (load_default pil0) 675 ''Sale 50%'' ''Shop'' ''center''"
proof -
  let ?lay = "text_layout pil0 (load_default pil0) (load_default pil0) 675 ''Sale 50%'' ''Shop''"
  have d: "valid_dim 675" by (simp add: valid_dim_def)
  have t: "textbbox pil0 (load_default pil0) ''Sale 50%'' = (0, 0, 48, 11)"
    by (simp add: pil0_def)
  have c: "textbbox pil0 (load_default pil0) ''Shop'' = (0, 0, 24, 11)"
    by (simp add: pil0_def)
  have v1: "float_mul (of_int 675) (float_literal (15/100)) = 405 / 4" by code_simp
  have v2: "float_sub (float_mul (of_int 675) (float_literal (85/100))) (of_int 92) = 1927 / 4"
    by code_simp
  note top = text_layout_as_specified [OF d t c refl refl, of "''top''"]
  note bottom = text_layout_as_specified [OF d t c refl refl, of "''bottom''"]
  note center = text_layout_as_specified [OF d t c refl refl, of "''center''"]
  note middle = text_layout_as_specified [OF d t c refl refl, of "''middle''"]
  have T1: "total_text_height (?lay ''top'') = 92" using top by simp
  have T2: "total_text_height (?lay ''bottom'') = 92" using bottom by simp
  have T3: "total_text_height (?lay ''center'') = 92" using center by simp
  have y1: "y_start (?lay ''top'') = PyFloat (405 / 4)"
    using top v1 by simp
  have y2: "y_start (?lay ''bottom'') = PyFloat (1927 / 4)"
    using bottom v2 T2 by simp
  have y3: "y_start (?lay ''center'') = PyInt 291"
    using center T3 by simp
  have y4: "?lay ''middle'' = ?lay ''center''"
    using middle by simp
  show ?thesis using d t c T1 y1 y2 y3 y4 by simp
qed

section \<open>The request pipeline\<close>

lemma format_loop_filter:
  "format_loop lib ts req ip lp xs files results
     = format_loop lib ts req ip lp (filter (\<lambda>k. k \<in> set catalog) xs) files results"
  by (induction xs arbitrary: files results) (auto split: sum.splits)

lemma format_loop_append:
  "format_loop lib ts req ip lp (xs @ ys) files results =
     (case format_loop lib ts req ip lp xs files results of
        Inl e \<Rightarrow> Inl e
      | Inr (results', files') \<Rightarrow> format_loop lib ts req ip lp ys files' results')"
  by (induction xs arbitrary: files results) (auto split: sum.splits)

lemma format_step_asset:
  assumes "format_step lib ts req ip lp key files = Inr (a, files')"
  shows "format a = key"
    and "(asset_width a, asset_height a) = dict_get dimensions key (1080, 1080)"
  using assms
  by (auto simp: format_step_def and_then_def Let_def split: prod.splits sum.splits option.splits)

lemma format_loop_formats:
  assumes "format_loop lib ts req ip lp xs files results = Inr (results', files')"
  shows "map format results' = map format results @ filter (\<lambda>k. k \<in> set catalog) xs"
  using assms
proof (induction xs arbitrary: files results)
  case Nil
  then show ?case by simp
next
  case (Cons k xs)
  show ?case
  proof (cases "k \<in> set catalog")
    case False
    with Cons show ?thesis by simp
  next
    case True
    with Cons.prems obtain a f where
      st: "format_step lib ts req ip lp k files = Inr (a, f)"
      and rest: "format_loop lib ts req ip lp xs f (results @ [a]) = Inr (results', files')"
      by (auto split: sum.splits)
    from Cons.IH [OF rest] format_step_asset(1) [OF st] True show ?thesis by simp
  qed
qed

lemma format_loop_dimensions:
  assumes "format_loop lib ts req ip lp xs files results = Inr (results', files')"
    and "\<forall>a \<in> set results. (asset_width a, asset_height a) = dict_get dimensions (format a) (1080, 1080)"
  shows "\<forall>a \<in> set results'. (asset_width a, asset_height a) = dict_get dimensions (format a) (1080, 1080)"
  using assms
proof (induction xs arbitrary: files results)
  case Nil
  then show ?case by simp
next
  case (Cons k xs)
  show ?case
  proof (cases "k \<in> set catalog")
    case False
    with Cons show ?thesis by simp
  next
    case True
    with Cons.prems(1) obtain a f where
      st: "format_step lib ts req ip lp k files = Inr (a, f)"
      and rest: "format_loop lib ts req ip lp xs f (results @ [a]) = Inr (results', files')"
      by (auto split: sum.splits)
    have "\<forall>b \<in> set (results @ [a]).
            (asset_width b, asset_height b) = dict_get dimensions (format b) (1080, 1080)"
      using Cons.prems(2) format_step_asset [OF st] by auto
    from Cons.IH [OF rest this] show ?thesis .
  qed
qed

text \<open>A loop that raises has a first catalog format whose step raises.\<close>

lemma format_loop_Inl:
  assumes "format_loop lib ts req ip lp xs files results = Inl e"
  shows "\<exists>pre key post made files1.
           xs = pre @ key # post
         \<and> format_loop lib ts req ip lp pre files results = Inr (made, files1)
         \<and> key \<in> set catalog
         \<and> format_step lib ts req ip lp key files1 = Inl e"
  using assms
proof (induction xs arbitrary: files results)
  case Nil
  then show ?case by simp
next
  case (Cons k xs)
  show ?case
  proof (cases "k \<in> set catalog")
    case False
    with Cons.prems have "format_loop lib ts req ip lp xs files results = Inl e" by simp
    from Cons.IH [OF this] obtain pre key post made files1 where
      s: "xs = pre @ key # post"
         "format_loop lib ts req ip lp pre files results = Inr (made, files1)"
         "key \<in> set catalog" "format_step lib ts req ip lp key files1 = Inl e"
      by blast
    have "k # xs = (k # pre) @ key # post" using s(1) by simp
    moreover have "format_loop lib ts req ip lp (k # pre) files results = Inr (made, files1)"
      using False s(2) by simp
    ultimately show ?thesis using s(3,4) by blast
  next
    case True
    show ?thesis
    proof (cases "format_step lib ts req ip lp k files")
      case (Inl e')
      with True Cons.prems have "e' = e" by simp
      with Inl have "format_step lib ts req ip lp k files = Inl e" by simp
      moreover have "k # xs = [] @ k # xs" by simp
      moreover have "format_loop lib ts req ip lp [] files results = Inr (results, files)" by simp
      ultimately show ?thesis using True by blast
    next
      case (Inr p)
      obtain a f where p: "p = (a, f)" by (cases p)
      with Inr True Cons.prems have
        "format_loop lib ts req ip lp xs f (results @ [a]) = Inl e" by simp
      from Cons.IH [OF this] obtain pre key post made files1 where
        s: "xs = pre @ key # post"
           "format_loop lib ts req ip lp pre f (results @ [a]) = Inr (made, files1)"
           "key \<in> set catalog" "format_step lib ts req ip lp key files1 = Inl e"
        by blast
      have "k # xs = (k # pre) @ key # post" using s(1) by simp
      moreover have "format_loop lib ts req ip lp (k # pre) files results = Inr (made, files1)"
        using True Inr p s(2) by simp
      ultimately show ?thesis using s(3,4) by blast
    qed
  qed
qed

lemma format_loop_fails:
  assumes "format_loop lib ts req ip lp pre files results = Inr (made, files1)"
    and "key \<in> set catalog"
    and "format_step lib ts req ip lp key files1 = Inl e"
  shows "format_loop lib ts req ip lp (pre @ key # post) files results = Inl e"
  using assms by (simp add: format_loop_append)

lemma generate_assets_after_setup:
  assumes "request_setup lib files ts req = Inr (ip, lp, files0)"
  shows "generate_assets lib files ts req =
     (case format_loop lib ts req ip lp (format_list req) files0 [] of
        Inl e \<Rightarrow> Failure e
      | Inr (results, files') \<Rightarrow> Success results (length results) (req_mode req))"
  using assms
  by (simp add: generate_assets_def generate_results_def and_then_def Let_def
      split: sum.splits prod.splits)

lemma generate_assets_Success:
  assumes "generate_assets lib files ts req = Success as n m"
  shows "\<exists>ip lp files0 files'.
           request_setup lib files ts req = Inr (ip, lp, files0)
         \<and> format_loop lib ts req ip lp (format_list req) files0 [] = Inr (as, files')
         \<and> n = length as \<and> m = req_mode req"
  using assms
  by (auto simp: generate_assets_def generate_results_def and_then_def Let_def
      split: sum.splits prod.splits)

lemma request_setup_upload:
  assumes "req_image req \<noteq> None"
  shows "\<exists>ip lp files0. request_setup lib files ts req = Inr (ip, lp, files0)"
proof -
  from assms obtain content where c: "req_image req = Some content" by auto
  show ?thesis
    by (cases "req_logo_file req") (simp_all add: request_setup_def and_then_def Let_def c)
qed

text \<open>
  Claim C8. A label that is not in the catalog is skipped: the loop over the requested
  labels does exactly what it does on the catalog labels among them, so an unknown label
  raises nothing and produces nothing; a request with an uploaded image and no catalog
  label at all succeeds with no assets. A successful response holds one asset for each
  catalog label of the request, in the order of the request and with the catalog's
  dimensions, and its count is the number of assets.
\<close>

theorem unknown_formats_are_skipped:
  "format_loop lib ts req ip lp xs files0 results
     = format_loop lib ts req ip lp (filter (\<lambda>k. k \<in> set catalog) xs) files0 results
   \<and> (req_image req \<noteq> None \<and> (\<forall>k \<in> set (format_list req). k \<notin> set catalog) \<longrightarrow>
         generate_assets lib files ts req = Success [] 0 (req_mode req))
   \<and> (generate_assets lib files ts req = Success as n m \<longrightarrow>
         map format as = filter (\<lambda>k. k \<in> set catalog) (format_list req)
       \<and> n = length as
       \<and> length as = length (filter (\<lambda>k. k \<in> set catalog) (format_list req))
       \<and> (\<forall>a \<in> set as.
             (asset_width a, asset_height a) = dict_get dimensions (format a) (1080, 1080)))"
proof -
  have none: "generate_assets lib files ts req = Success [] 0 (req_mode req)"
    if "req_image req \<noteq> None" and "\<forall>k \<in> set (format_list req). k \<notin> set catalog"
  proof -
    from request_setup_upload [OF that(1)] obtain ip' lp' f0 where
      s: "request_setup lib files ts req = Inr (ip', lp', f0)"
      by blast
    have "filter (\<lambda>k. k \<in> set catalog) (format_list req) = []"
      using that(2) by (simp add: filter_empty_conv)
    then have "format_loop lib ts req ip' lp' (format_list req) f0 [] = Inr ([], f0)"
      using format_loop_filter [of lib ts req ip' lp' "format_list req" f0 "[]"] by simp
    then show ?thesis by (simp add: generate_assets_after_setup [OF s])
  qed
  have some: "map format as = filter (\<lambda>k. k \<in> set catalog) (format_list req)
       \<and> n = length as
       \<and> length as = length (filter (\<lambda>k. k \<in> set catalog) (format_list req))
       \<and> (\<forall>a \<in> set as.
             (asset_width a, asset_height a) = dict_get dimensions (format a) (1080, 1080))"
    if "generate_assets lib files ts req = Success as n m"
  proof -
    from generate_assets_Success [OF that] obtain ip' lp' f0 f1 where
      l: "format_loop lib ts req ip' lp' (format_list req) f0 [] = Inr (as, f1)"
      and n: "n = length as"
      by blast
    from format_loop_formats [OF l]
    have f: "map format as = filter (\<lambda>k. k \<in> set catalog) (format_list req)" by simp
    then have "length (map format as) = length (filter (\<lambda>k. k \<in> set catalog) (format_list req))"
      by simp
    then have len: "length as = length (filter (\<lambda>k. k \<in> set catalog) (format_list req))"
      by simp
    from format_loop_dimensions [OF l] have
      "\<forall>a \<in> set as. (asset_width a, asset_height a) = dict_get dimensions (format a) (1080, 1080)"
      by simp
    with f n len show ?thesis by blast
  qed
  show ?thesis
    using format_loop_filter [of lib ts req ip lp xs files0 results] none some by blast
qed

theorem unknown_formats_are_skipped_witness:
  "generate_assets pil0 Map.empty ''T'' (request0\<lparr>req_formats := ''16:9,bogus,1:1''\<rparr>)
     = Success [Asset ''16:9'' ''Facebook Feed'' 1200 675 ''data:image/jpeg;base64,JPEG''
                  ''media_studio_16x9_T.jpg'',
                Asset ''1:1'' ''Instagram Square'' 1080 1080 ''data:image/jpeg;base64,JPEG''
                  ''media_studio_1x1_T.jpg''] 2 ''from-image''
   \<and> format_list (request0\<lparr>req_formats := ''16:9,bogus,1:1''\<rparr>) = [''16:9'', ''bogus'', ''1:1'']
   \<and> filter (\<lambda>k. k \<in> set catalog) (format_list (request0\<lparr>req_formats := ''16:9,bogus,1:1''\<rparr>))
       = [''16:9'', ''1:1'']
   \<and> req_image (request0\<lparr>req_formats := ''invalid-format''\<rparr>) \<noteq> None
   \<and> format_list (request0\<lparr>req_formats := ''invalid-format''\<rparr>) = [''invalid-format'']
   \<and> ''invalid-format'' \<notin> set catalog
   \<and> generate_assets pil0 Map.empty ''T'' (request0\<lparr>req_formats := ''invalid-format''\<rparr>)
       = Success [] 0 ''from-image''"
proof -
  let ?req = "request0\<lparr>req_formats := ''16:9,bogus,1:1''\<rparr>"
  let ?bad = "request0\<lparr>req_formats := ''invalid-format''\<rparr>"
  let ?as = "[Asset ''16:9'' ''Facebook Feed'' 1200 675 ''data:image/jpeg;base64,JPEG''
                  ''media_studio_16x9_T.jpg'',
              Asset ''1:1'' ''Instagram Square'' 1080 1080 ''data:image/jpeg;base64,JPEG''
                  ''media_studio_1x1_T.jpg'']"
  have run: "generate_assets pil0 Map.empty ''T'' ?req = Success ?as 2 ''from-image''"
    by code_simp
  have fl: "format_list ?req = [''16:9'', ''bogus'', ''1:1'']"
    by code_simp
  have im: "req_image ?bad \<noteq> None" by (simp add: request0_def)
  have fb: "format_list ?bad = [''invalid-format'']" by code_simp
  have nc: "''invalid-format'' \<notin> set catalog" by (simp add: catalog_def)
  have un: "\<forall>k \<in> set (format_list ?bad). k \<notin> set catalog" using fb nc by simp
  have m: "req_mode ?bad = ''from-image''" by (simp add: request0_def)
  note t = unknown_formats_are_skipped [of pil0 "''T''" ?req _ _ _ _ _ Map.empty ?as 2 "''from-image''"]
  note b = unknown_formats_are_skipped [of pil0 "''T''" ?bad _ _ _ _ _ Map.empty]
  have "filter (\<lambda>k. k \<in> set catalog) (format_list ?req) = [''16:9'', ''1:1'']"
    using t run by simp
  moreover have "generate_assets pil0 Map.empty ''T'' ?bad = Success [] 0 ''from-image''"
    using b im un m by simp
  ultimately show ?thesis using run fl im fb nc by simp
qed

text \<open>
  Claim C1, as the code has it. The loop over the formats runs inside the one \<open>try\<close>
  block of the request. Once the uploads are stored, the request fails exactly when the
  generation of some requested catalog format raises: the formats before it were
  generated (their assets, \<open>made\<close>, are not returned), the formats after it are not
  processed, and the response is the failure with that exception.
\<close>

theorem one_failing_format_fails_the_request:
  assumes "request_setup lib files ts req = Inr (ip, lp, files0)"
  shows "generate_assets lib files ts req = Failure e \<longleftrightarrow>
     (\<exists>pre key post made files1.
         format_list req = pre @ key # post
       \<and> format_loop lib ts req ip lp pre files0 [] = Inr (made, files1)
       \<and> key \<in> set catalog
       \<and> format_step lib ts req ip lp key files1 = Inl e)"
proof
  assume "generate_assets lib files ts req = Failure e"
  then have "format_loop lib ts req ip lp (format_list req) files0 [] = Inl e"
    by (simp add: generate_assets_after_setup [OF assms] split: sum.splits prod.splits)
  then show "\<exists>pre key post made files1.
         format_list req = pre @ key # post
       \<and> format_loop lib ts req ip lp pre files0 [] = Inr (made, files1)
       \<and> key \<in> set catalog
       \<and> format_step lib ts req ip lp key files1 = Inl e"
    by (rule format_loop_Inl)
next
  assume "\<exists>pre key post made files1.
         format_list req = pre @ key # post
       \<and> format_loop lib ts req ip lp pre files0 [] = Inr (made, files1)
       \<and> key \<in> set catalog
       \<and> format_step lib ts req ip lp key files1 = Inl e"
  then obtain pre key post made files1 where
    s: "format_list req = pre @ key # post"
       "format_loop lib ts req ip lp pre files0 [] = Inr (made, files1)"
       "key \<in> set catalog" "format_step lib ts req ip lp key files1 = Inl e"
    by blast
  from format_loop_fails [OF s(2,3,4), of post]
  show "generate_assets lib files ts req = Failure e"
    by (simp add: generate_assets_after_setup [OF assms] s(1))
qed

theorem one_failing_format_fails_the_request_witness:
  "request_setup pil_failing Map.empty ''T'' (request0\<lparr>req_formats := ''16:9,9:16''\<rparr>)
     = Inr (''/tmp/input_T.jpg'', None, [''/tmp/input_T.jpg'' \<mapsto> ''PHOTO''])
   \<and> generate_assets pil_failing Map.empty ''T'' (request0\<lparr>req_formats := ''16:9,9:16''\<rparr>)
       = Failure OSError
   \<and> (\<exists>pre key post made files1.
         format_list (request0\<lparr>req_formats := ''16:9,9:16''\<rparr>) = pre @ key # post
       \<and> format_loop pil_failing ''T'' (request0\<lparr>req_formats := ''16:9,9:16''\<rparr>)
            ''/tmp/input_T.jpg'' None pre [''/tmp/input_T.jpg'' \<mapsto> ''PHOTO''] [] = Inr (made, files1)
       \<and> key \<in> set catalog
       \<and> format_step pil_failing ''T'' (request0\<lparr>req_formats := ''16:9,9:16''\<rparr>)
            ''/tmp/input_T.jpg'' None key files1 = Inl OSError)"
proof -
  let ?req = "request0\<lparr>req_formats := ''16:9,9:16''\<rparr>"
  have s: "request_setup pil_failing Map.empty ''T'' ?req
     = Inr (''/tmp/input_T.jpg'', None, [''/tmp/input_T.jpg'' \<mapsto> ''PHOTO''])"
    by (simp add: request_setup_def request0_def and_then_def Let_def)
  have f: "generate_assets pil_failing Map.empty ''T'' ?req = Failure OSError"
    by code_simp
  show ?thesis
    using one_failing_format_fails_the_request [OF s, of OSError] s f by simp
qed

text \<open>
  The claim as stated fails. On a machine where encoding the \<open>9:16\<close> canvas fails, the
  request for \<open>16:9\<close> alone succeeds with its asset, but the request for \<open>16:9\<close> and
  \<open>9:16\<close> fails as a whole and returns no asset, although only one of its two formats
  failed.
\<close>

theorem failure_isolation_counterexample:
  "generate_assets pil_failing Map.empty ''T'' (request0\<lparr>req_formats := ''16:9''\<rparr>)
     = Success [Asset ''16:9'' ''Facebook Feed'' 1200 675 ''data:image/jpeg;base64,JPEG''
                  ''media_studio_16x9_T.jpg''] 1 ''from-image''
   \<and> generate_assets pil_failing Map.empty ''T'' (request0\<lparr>req_formats := ''16:9,9:16''\<rparr>)
       = Failure OSError"
  by code_simp

section \<open>The default watermark\<close>

lemma format_step_logo_enabled:
  "format_step lib ts (req\<lparr>req_logo_enabled := b\<rparr>) ip None key files
     = format_step lib ts req ip None key files"
  by (simp add: format_step_def)

lemma format_loop_logo_enabled:
  "format_loop lib ts (req\<lparr>req_logo_enabled := b\<rparr>) ip None xs files results
     = format_loop lib ts req ip None xs files results"
  by (induction xs arbitrary: files results)
    (auto simp: format_step_logo_enabled split: sum.splits)

lemma request_setup_no_logo_file:
  assumes "req_logo_file req = None"
  shows "request_setup lib files ts (req\<lparr>req_logo_enabled := b\<rparr>) = request_setup lib files ts req"
    and "request_setup lib files ts req = Inr (ip, lp, files0) \<Longrightarrow> lp = None"
  using assms
  by (auto simp: request_setup_def and_then_def Let_def split: sum.splits option.splits)

lemma generate_assets_no_logo_file:
  assumes "req_logo_file req = None"
  shows "generate_assets lib files ts (req\<lparr>req_logo_enabled := b\<rparr>) = generate_assets lib files ts req"
proof (cases "request_setup lib files ts req")
  case (Inl e)
  then show ?thesis
    using request_setup_no_logo_file(1) [OF assms, of lib files ts b]
    by (simp add: generate_assets_def generate_results_def and_then_def)
next
  case (Inr s)
  obtain ip lp files0 where s: "s = (ip, lp, files0)" by (cases s)
  with Inr request_setup_no_logo_file(2) [OF assms] have
    r: "request_setup lib files ts req = Inr (ip, None, files0)" by simp
  then have r': "request_setup lib files ts (req\<lparr>req_logo_enabled := b\<rparr>) = Inr (ip, None, files0)"
    using request_setup_no_logo_file(1) [OF assms, of lib files ts b] by simp
  show ?thesis
    by (simp add: generate_assets_after_setup [OF r] generate_assets_after_setup [OF r']
        format_loop_logo_enabled format_list_def split: sum.splits prod.splits)
qed

lemma watermark_font_Inr:
  assumes "\<forall>p s e. truetype lib p s = Inl e \<longrightarrow> is_IOError e"
  shows "\<exists>f. watermark_font lib font_size = Inr f"
  using assms by (auto simp: watermark_font_def split: sum.splits)

lemma draw_text_size [simp]:
  "mode (draw_text lib xy t f fill ov) = mode ov" "width (draw_text lib xy t f fill ov) = width ov"
  "height (draw_text lib xy t f fill ov) = height ov"
  by (simp_all add: draw_text_def)

lemma new_image_size [simp]:
  "mode (new_image m sz c) = m" "width (new_image m sz c) = fst sz" "height (new_image m sz c) = snd sz"
  by (simp_all add: new_image_def)

lemma add_transparent_logo_Inr:
  assumes "\<forall>p s e. truetype lib p s = Inl e \<longrightarrow> is_IOError e"
  shows "\<exists>out. add_transparent_logo lib image0 text position opacity font_size color = Inr out
           \<and> width out = width image0 \<and> height out = height image0 \<and> mode out = RGB"
proof -
  from watermark_font_Inr [OF assms] obtain f where f: "watermark_font lib font_size = Inr f"
    by blast
  obtain b0 b1 b2 b3 where b: "textbbox lib f text = (b0, b1, b2, b3)"
    by (metis prod_cases4)
  show ?thesis
    by (simp add: add_transparent_logo_def f b and_then_def Let_def alpha_composite_def
        img_size_def split: prod.splits)
qed

text \<open>
  Claim C9, as the code has it. A request without logo bytes is answered the same
  whether the logo is enabled or not: \<open>generate_asset\<close> gets no logo path and then
  builds its canvas from the crop and the text overlay alone, with no watermark and
  without looking for a default logo. The fallback of the claim is what the function
  \<open>add_logo\<close> of logo_handler.py does when it is called without a logo path: it looks
  for \<open>static/logo/mako_logo.png\<close> and, when that file does not exist, returns the
  canvas with the text watermark \<open>KESHET\<close> at opacity \<open>0.35\<close> (alpha 89 of 255),
  which does not fail as long as font loading fails with \<open>IOError\<close> only.
\<close>

theorem default_watermark_only_in_add_logo:
  "(req_logo_file req = None \<longrightarrow>
      generate_assets lib files ts (req\<lparr>req_logo_enabled := True\<rparr>)
        = generate_assets lib files ts (req\<lparr>req_logo_enabled := False\<rparr>))
   \<and> asset_canvas lib files ip w h t c font_size anchor None corner logo_size =
       and_then (open_path lib files ip) (\<lambda>img.
       and_then (smart_crop lib (convert lib RGB img) w h) (\<lambda>img.
       if t \<noteq> [] \<or> c \<noteq> [] then add_text_overlay lib files img t c font_size anchor
       else Inr img))
   \<and> (files default_logo_path = None \<longrightarrow>
         add_logo lib files image0 corner None logo_width opacity
           = add_transparent_logo lib image0 ''KESHET'' corner (float_literal (35/100)) 70
               (255, 255, 255))
   \<and> alpha_value (float_literal (35/100)) = 89
   \<and> ((\<forall>p s e. truetype lib p s = Inl e \<longrightarrow> is_IOError e) \<longrightarrow>
         (\<exists>out. add_transparent_logo lib image0 ''KESHET'' corner (float_literal (35/100)) 70
                   (255, 255, 255) = Inr out
               \<and> width out = width image0 \<and> height out = height image0 \<and> mode out = RGB))"
proof -
  have a: "generate_assets lib files ts (req\<lparr>req_logo_enabled := True\<rparr>)
        = generate_assets lib files ts (req\<lparr>req_logo_enabled := False\<rparr>)"
    if "req_logo_file req = None"
    using generate_assets_no_logo_file [OF that, of lib files ts True]
      generate_assets_no_logo_file [OF that, of lib files ts False] by simp
  have b: "asset_canvas lib files ip w h t c font_size anchor None corner logo_size =
       and_then (open_path lib files ip) (\<lambda>img.
       and_then (smart_crop lib (convert lib RGB img) w h) (\<lambda>img.
       if t \<noteq> [] \<or> c \<noteq> [] then add_text_overlay lib files img t c font_size anchor
       else Inr img))"
    by (simp add: asset_canvas_def and_then_def split: sum.splits)
  have c: "add_logo lib files image0 corner None logo_width opacity
           = add_transparent_logo lib image0 ''KESHET'' corner (float_literal (35/100)) 70
               (255, 255, 255)"
    if "files default_logo_path = None"
    using that by (simp add: add_logo_def)
  have d: "alpha_value (float_literal (35/100)) = 89" by code_simp
  show ?thesis
    using a b c d add_transparent_logo_Inr [of lib image0 "''KESHET''" corner] by blast
qed

theorem default_watermark_only_in_add_logo_witness:
  "req_logo_file request0 = None
   \<and> generate_assets pil0 Map.empty ''T'' (request0\<lparr>req_logo_enabled := True\<rparr>)
       = generate_assets pil0 Map.empty ''T'' (request0\<lparr>req_logo_enabled := False\<rparr>)
   \<and> (Map.empty :: fs) default_logo_path = None
   \<and> add_logo pil0 Map.empty photo ''top-right'' None 150 (float_literal (85/100))
       = add_transparent_logo pil0 photo ''KESHET'' ''top-right'' (float_literal (35/100)) 70
           (255, 255, 255)
   \<and> (\<exists>out. add_transparent_logo pil0 photo ''KESHET'' ''top-right'' (float_literal (35/100)) 70
               (255, 255, 255) = Inr out
           \<and> width out = width photo \<and> height out = height photo \<and> mode out = RGB)"
proof -
  have n: "req_logo_file request0 = None" by (simp add: request0_def)
  have e: "(Map.empty :: fs) default_logo_path = None" by simp
  have f: "\<forall>p s e. truetype pil0 p s = Inl e \<longrightarrow> is_IOError e"
    by (simp add: pil0_def is_IOError_def)
  show ?thesis
    using default_watermark_only_in_add_logo
      [where req = request0 and lib = pil0 and files = Map.empty and ts = "''T''"
         and ?image0.0 = photo and corner = "''top-right''" and logo_width = 150
         and opacity = "float_literal (85/100)"] n e f
    by blast
qed

text \<open>
  The claim as stated fails for the pipeline. For the default request (logo enabled, no
  logo bytes) on a machine without the default logo file, no logo path reaches
  \<open>generate_asset\<close>, and the canvas it builds shows the photo's own colour where the
  fallback of \<open>add_logo\<close> would have drawn the text watermark.
\<close>

theorem pipeline_has_no_default_watermark_counterexample:
  "req_logo_enabled request0 \<and> req_logo_file request0 = None
   \<and> [''/tmp/input_T.jpg'' \<mapsto> ''PHOTO''] default_logo_path = None
   \<and> request_setup pil0 Map.empty ''T'' request0
       = Inr (''/tmp/input_T.jpg'', None, [''/tmp/input_T.jpg'' \<mapsto> ''PHOTO''])
   \<and> (case asset_canvas pil0 [''/tmp/input_T.jpg'' \<mapsto> ''PHOTO''] ''/tmp/input_T.jpg'' 1200 675
              (req_title request0) (req_cta request0) (req_title_font_size request0)
              (req_text_position request0) None (req_logo_position request0)
              (req_logo_size request0) of
         Inl e \<Rightarrow> False
       | Inr canvas \<Rightarrow>
           px canvas 1130 45 = (73, 109, 137, 255)
         \<and> (case add_logo pil0 [''/tmp/input_T.jpg'' \<mapsto> ''PHOTO''] canvas ''top-right'' None 150
                    (float_literal (85/100)) of
               Inl e \<Rightarrow> False
             | Inr marked \<Rightarrow> px marked 1130 45 = (136, 159, 178, 255)))"
proof -
  have a: "req_logo_enabled request0 \<and> req_logo_file request0 = None"
    by (simp add: request0_def)
  have b: "[''/tmp/input_T.jpg'' \<mapsto> ''PHOTO''] default_logo_path = None"
    by (simp add: default_logo_path_def)
  have c: "request_setup pil0 Map.empty ''T'' request0
       = Inr (''/tmp/input_T.jpg'', None, [''/tmp/input_T.jpg'' \<mapsto> ''PHOTO''])"
    by (simp add: request_setup_def request0_def and_then_def Let_def)
  have d: "(case asset_canvas pil0 [''/tmp/input_T.jpg'' \<mapsto> ''PHOTO''] ''/tmp/input_T.jpg'' 1200 675
              (req_title request0) (req_cta request0) (req_title_font_size request0)
              (req_text_position request0) None (req_logo_position request0)
              (req_logo_size request0) of
         Inl e \<Rightarrow> False
       | Inr canvas \<Rightarrow>
           px canvas 1130 45 = (73, 109, 137, 255)
         \<and> (case add_logo pil0 [''/tmp/input_T.jpg'' \<mapsto> ''PHOTO''] canvas ''top-right'' None 150
                    (float_literal (85/100)) of
               Inl e \<Rightarrow> False
             | Inr marked \<Rightarrow> px marked 1130 45 = (136, 159, 178, 255)))"
    by code_simp
  show ?thesis using a b c d by blast
qed

section \<open>Compositing and the caller's canvas\<close>

lemma alloc_simps [simp]:
  "fst (alloc v s) = next_ref s"
  "next_ref (snd (alloc v s)) = Suc (next_ref s)"
  "objs (snd (alloc v s)) r = (if r = next_ref s then v else objs s r)"
  by (simp_all add: alloc_def)

lemma update_simps [simp]:
  "next_ref (update r f s) = next_ref s"
  "objs (update r f s) q = (if q = r then f (objs s r) else objs s q)"
  by (simp_all add: update_def)

lemma add_text_overlay_st_next:
  "next_ref s \<le> next_ref (snd (add_text_overlay_st lib files image0 t c font_size anchor s))"
  by (simp add: add_text_overlay_st_def Let_def split_beta split: sum.splits)


lemma add_text_overlay_st_frame:
  "r < next_ref s \<Longrightarrow>
   objs (snd (add_text_overlay_st lib files image0 t c font_size anchor s)) r = objs s r"
  by (simp add: add_text_overlay_st_def Let_def split_beta split: sum.splits)

lemma add_text_overlay_st_result:
  "image0 < next_ref s \<Longrightarrow>
   (case fst (add_text_overlay_st lib files image0 t c font_size anchor s) of
      Inl e \<Rightarrow> add_text_overlay lib files (objs s image0) t c font_size anchor = Inl e
    | Inr q \<Rightarrow> next_ref s \<le> q
        \<and> q < next_ref (snd (add_text_overlay_st lib files image0 t c font_size anchor s))
        \<and> add_text_overlay lib files (objs s image0) t c font_size anchor
            = Inr (objs (snd (add_text_overlay_st lib files image0 t c font_size anchor s)) q))"
  by (simp add: add_text_overlay_st_def add_text_overlay_def Let_def split_beta and_then_def
      split: sum.splits)


lemma remove_white_background_st_next:
  "next_ref s < next_ref (snd (remove_white_background_st lib image0 threshold feather s))"
  by (simp add: remove_white_background_st_def Let_def split_beta)

lemma remove_white_background_st_frame:
  "r < next_ref s \<Longrightarrow>
   objs (snd (remove_white_background_st lib image0 threshold feather s)) r = objs s r"
  by (simp add: remove_white_background_st_def Let_def split_beta)

lemma remove_white_background_st_result:
  "image0 < next_ref s \<Longrightarrow>
   next_ref s \<le> fst (remove_white_background_st lib image0 threshold feather s)
   \<and> fst (remove_white_background_st lib image0 threshold feather s)
       < next_ref (snd (remove_white_background_st lib image0 threshold feather s))
   \<and> objs (snd (remove_white_background_st lib image0 threshold feather s))
        (fst (remove_white_background_st lib image0 threshold feather s))
       = remove_white_background lib (objs s image0) threshold feather"
  by (simp add: remove_white_background_st_def remove_white_background_def Let_def split_beta)

lemma prepare_logo_st_next:
  "next_ref s \<le> next_ref (snd (prepare_logo_st lib files src rb threshold s))"
  by (simp add: prepare_logo_st_def remove_white_background_st_def Let_def split_beta
      split: sum.splits)

lemma prepare_logo_st_frame:
  "r < next_ref s \<Longrightarrow> objs (snd (prepare_logo_st lib files src rb threshold s)) r = objs s r"
  by (simp add: prepare_logo_st_def remove_white_background_st_def Let_def split_beta
      split: sum.splits)

lemma prepare_logo_st_result:
  "(case fst (prepare_logo_st lib files src rb threshold s) of
      Inl e \<Rightarrow> prepare_logo lib files src rb threshold = Inl e
    | Inr q \<Rightarrow> next_ref s \<le> q \<and> q < next_ref (snd (prepare_logo_st lib files src rb threshold s))
        \<and> prepare_logo lib files src rb threshold
            = Inr (objs (snd (prepare_logo_st lib files src rb threshold s)) q))"
  by (simp add: prepare_logo_st_def prepare_logo_def remove_white_background_st_def
      remove_white_background_def Let_def split_beta and_then_def split: sum.splits)

lemma add_image_logo_st_after_prepare:
  assumes "prepare_logo_st lib files src rb 240 s = (res1, s1)"
  shows "next_ref s1 \<le> next_ref (snd (add_image_logo_st lib files image0 src corner logo_width opacity rb s))"
    and "r < next_ref s1 \<Longrightarrow>
         objs (snd (add_image_logo_st lib files image0 src corner logo_width opacity rb s)) r = objs s1 r"
  by (cases res1; simp add: add_image_logo_st_def assms Let_def split_beta split: sum.splits)+

lemma add_image_logo_st_next:
  "next_ref s \<le> next_ref (snd (add_image_logo_st lib files image0 src corner logo_width opacity rb s))"
proof -
  obtain res1 s1 where p: "prepare_logo_st lib files src rb 240 s = (res1, s1)"
    by (cases "prepare_logo_st lib files src rb 240 s")
  have "next_ref s \<le> next_ref s1"
    using prepare_logo_st_next [of s lib files src rb 240] by (simp add: p)
  with add_image_logo_st_after_prepare(1) [OF p] show ?thesis by (rule order_trans [rotated])
qed

lemma add_image_logo_st_frame:
  assumes "r < next_ref s"
  shows "objs (snd (add_image_logo_st lib files image0 src corner logo_width opacity rb s)) r = objs s r"
proof -
  obtain res1 s1 where p: "prepare_logo_st lib files src rb 240 s = (res1, s1)"
    by (cases "prepare_logo_st lib files src rb 240 s")
  have n: "next_ref s \<le> next_ref s1"
    using prepare_logo_st_next [of s lib files src rb 240] by (simp add: p)
  have "objs s1 r = objs s r"
    using prepare_logo_st_frame [OF assms, of lib files src rb 240] by (simp add: p)
  moreover have "r < next_ref s1" using assms n by simp
  ultimately show ?thesis using add_image_logo_st_after_prepare(2) [OF p] by simp
qed

lemma add_image_logo_st_result:
  assumes "image0 < next_ref s"
  shows "(case fst (add_image_logo_st lib files image0 src corner logo_width opacity rb s) of
      Inl e \<Rightarrow> add_image_logo lib files (objs s image0) src corner logo_width opacity rb = Inl e
    | Inr q \<Rightarrow> next_ref s \<le> q
        \<and> q < next_ref (snd (add_image_logo_st lib files image0 src corner logo_width opacity rb s))
        \<and> add_image_logo lib files (objs s image0) src corner logo_width opacity rb
            = Inr (objs (snd (add_image_logo_st lib files image0 src corner logo_width opacity rb s)) q))"
proof -
  obtain res1 s1 where p: "prepare_logo_st lib files src rb 240 s = (res1, s1)"
    by (cases "prepare_logo_st lib files src rb 240 s")
  have n: "next_ref s \<le> next_ref s1"
    using prepare_logo_st_next [of s lib files src rb 240] by (simp add: p)
  have i: "objs s1 image0 = objs s image0"
    using prepare_logo_st_frame [OF assms, of lib files src rb 240] by (simp add: p)
  have i1: "image0 < next_ref s1" using assms n by simp
  note res = prepare_logo_st_result [of lib files src rb 240 s, unfolded p, simplified]
  show ?thesis
  proof (cases res1)
    case (Inl e)
    with res have "prepare_logo lib files src rb 240 = Inl e" by simp
    then show ?thesis
      by (simp add: add_image_logo_st_def p Inl add_image_logo_def logo_layer_def and_then_def)
  next
    case (Inr l)
    with res have l: "next_ref s \<le> l" "l < next_ref s1"
      "prepare_logo lib files src rb 240 = Inr (objs s1 l)" by simp_all
    have ne: "image0 \<noteq> next_ref s1" "image0 \<noteq> Suc (next_ref s1)" "image0 \<noteq> Suc (Suc (next_ref s1))"
      using i1 by simp_all
    show ?thesis
      using l i i1 ne n
      by (simp add: add_image_logo_st_def p Inr add_image_logo_def logo_layer_def and_then_def
          Let_def split_beta split: sum.splits)
  qed
qed

text \<open>
  Claim C10. \<open>add_text_overlay\<close> and \<open>add_image_logo\<close> leave the caller's canvas as
  it was: after the call the store holds the same image at the caller's reference, and
  at every other reference that existed before. What they return is a new object, and
  it is the canvas that the functions compute from the caller's image; when they raise,
  nothing the caller had has changed either.
\<close>

theorem compositing_leaves_input_unchanged:
  assumes "image0 < next_ref s"
    and "add_text_overlay_st lib files image0 t c font_size anchor s = (res, s')"
    and "add_image_logo_st lib files image0 src corner logo_width opacity rb s = (res2, s2)"
  shows "objs s' image0 = objs s image0 \<and> (\<forall>r < next_ref s. objs s' r = objs s r)
    \<and> (\<forall>q. res = Inr q \<longrightarrow> q \<noteq> image0 \<and> next_ref s \<le> q
           \<and> add_text_overlay lib files (objs s image0) t c font_size anchor = Inr (objs s' q))
    \<and> (\<forall>e. res = Inl e \<longrightarrow>
           add_text_overlay lib files (objs s image0) t c font_size anchor = Inl e)
    \<and> objs s2 image0 = objs s image0 \<and> (\<forall>r < next_ref s. objs s2 r = objs s r)
    \<and> (\<forall>q. res2 = Inr q \<longrightarrow> q \<noteq> image0 \<and> next_ref s \<le> q
           \<and> add_image_logo lib files (objs s image0) src corner logo_width opacity rb
               = Inr (objs s2 q))
    \<and> (\<forall>e. res2 = Inl e \<longrightarrow>
           add_image_logo lib files (objs s image0) src corner logo_width opacity rb = Inl e)"
proof -
  have f1: "\<forall>r < next_ref s. objs s' r = objs s r"
    using add_text_overlay_st_frame [of _ s lib files image0 t c font_size anchor]
    by (simp add: assms(2))
  have f2: "\<forall>r < next_ref s. objs s2 r = objs s r"
    using add_image_logo_st_frame [of _ s lib files image0 src corner logo_width opacity rb]
    by (simp add: assms(3))
  note r1 = add_text_overlay_st_result [OF assms(1), of lib files t c font_size anchor,
      unfolded assms(2), simplified]
  note r2 = add_image_logo_st_result [OF assms(1), of lib files src corner logo_width opacity rb,
      unfolded assms(3), simplified]
  have a: "q \<noteq> image0 \<and> next_ref s \<le> q
      \<and> add_text_overlay lib files (objs s image0) t c font_size anchor = Inr (objs s' q)"
    if "res = Inr q" for q
    using r1 that assms(1) by auto
  have b: "add_text_overlay lib files (objs s image0) t c font_size anchor = Inl e"
    if "res = Inl e" for e
    using r1 that by simp
  have c: "q \<noteq> image0 \<and> next_ref s \<le> q
      \<and> add_image_logo lib files (objs s image0) src corner logo_width opacity rb = Inr (objs s2 q)"
    if "res2 = Inr q" for q
    using r2 that assms(1) by auto
  have d: "add_image_logo lib files (objs s image0) src corner logo_width opacity rb = Inl e"
    if "res2 = Inl e" for e
    using r2 that by simp
  show ?thesis
    using f1 f2 a b c d assms(1) by blast
qed

theorem compositing_leaves_input_unchanged_witness:
  "0 < next_ref store0 \<and> objs store0 0 = photo
   \<and> objs (snd (add_text_overlay_st pil0 Map.empty 0 ''Sale'' ''Shop'' 68 ''center'' store0)) 0 = photo
   \<and> (\<exists>q. fst (add_text_overlay_st pil0 Map.empty 0 ''Sale'' ''Shop'' 68 ''center'' store0) = Inr q
          \<and> q \<noteq> 0)
   \<and> objs (snd (add_image_logo_st pil0 Map.empty 0 (FileObj ''LOGO'') ''top-right'' 150
                  (float_literal (85/100)) True store0)) 0 = photo
   \<and> (\<exists>q. fst (add_image_logo_st pil0 Map.empty 0 (FileObj ''LOGO'') ''top-right'' 150
                  (float_literal (85/100)) True store0) = Inr q \<and> q \<noteq> 0)"
proof -
  let ?t = "add_text_overlay_st pil0 Map.empty 0 ''Sale'' ''Shop'' 68 ''center'' store0"
  let ?l = "add_image_logo_st pil0 Map.empty 0 (FileObj ''LOGO'') ''top-right'' 150
              (float_literal (85/100)) True store0"
  have n: "0 < next_ref store0" and p: "objs store0 0 = photo"
    by (simp_all add: store0_def)
  have vt: "case add_text_overlay pil0 Map.empty photo ''Sale'' ''Shop'' 68 ''center'' of
              Inl e \<Rightarrow> False | Inr v \<Rightarrow> True"
    by code_simp
  have vl: "case add_image_logo pil0 Map.empty photo (FileObj ''LOGO'') ''top-right'' 150
                 (float_literal (85/100)) True of
              Inl e \<Rightarrow> False | Inr v \<Rightarrow> True"
    by code_simp
  have st: "?t = (fst ?t, snd ?t)" and sl: "?l = (fst ?l, snd ?l)" by simp_all
  note th = compositing_leaves_input_unchanged [OF n st sl]
  have t0: "objs (snd ?t) 0 = objs store0 0" using th by blast
  have t1: "\<forall>e. fst ?t = Inl e \<longrightarrow>
      add_text_overlay pil0 Map.empty (objs store0 0) ''Sale'' ''Shop'' 68 ''center'' = Inl e"
    using th by blast
  have t2: "\<forall>q. fst ?t = Inr q \<longrightarrow> q \<noteq> 0" using th by blast
  have l0: "objs (snd ?l) 0 = objs store0 0" using th by blast
  have l1: "\<forall>e. fst ?l = Inl e \<longrightarrow>
      add_image_logo pil0 Map.empty (objs store0 0) (FileObj ''LOGO'') ''top-right'' 150
        (float_literal (85/100)) True = Inl e"
    using th by blast
  have l2: "\<forall>q. fst ?l = Inr q \<longrightarrow> q \<noteq> 0" using th by blast
  have t: "\<exists>q. fst ?t = Inr q \<and> q \<noteq> 0"
  proof (cases "fst ?t")
    case (Inl e)
    with t1 have "add_text_overlay pil0 Map.empty photo ''Sale'' ''Shop'' 68 ''center'' = Inl e"
      by (simp only: p)
    with vt show ?thesis by (simp only: sum.case)
  next
    case (Inr q)
    with t2 show ?thesis by blast
  qed
  have l: "\<exists>q. fst ?l = Inr q \<and> q \<noteq> 0"
  proof (cases "fst ?l")
    case (Inl e)
    with l1 have "add_image_logo pil0 Map.empty photo (FileObj ''LOGO'') ''top-right'' 150
        (float_literal (85/100)) True = Inl e"
      by (simp only: p)
    with vl show ?thesis by (simp only: sum.case)
  next
    case (Inr q)
    with l2 show ?thesis by blast
  qed
  show ?thesis using n p t l t0 l0 by (simp only:)
qed

end
